theory Spec2Isabelle
  imports
    Main
    "HOL-Library.Char_ord"
    "HOL-Library.List_Lexorder"
    "HOL-Library.FSet"
    "HOL-Library.AList"
begin

section \<open>mpdspl: rule-driven playlists for a music server\<close>

text \<open>
  A shallow embedding of \<^verbatim>\<open>mpdspl.py\<close>: the track catalog built at the start of
  \<^verbatim>\<open>generate_all\<close>, the accessor classes \<^verbatim>\<open>DbAccessor\<close>, \<^verbatim>\<open>PlaylistAccessor\<close>,
  \<^verbatim>\<open>GenreAccessor\<close> and \<^verbatim>\<open>LabelAccessor\<close>, and the synchronisation loop that ends
  \<^verbatim>\<open>generate_all\<close>. Exceptions are values of the type \<open>py_error\<close>, the client object
  \<^verbatim>\<open>m\<close> is a record that is passed in and returned, and the user's rule script (run by
  \<^verbatim>\<open>execfile\<close>) is represented by the accessor operations it can invoke.
\<close>

subsection \<open>Paths\<close>

text \<open>
  A \<^verbatim>\<open>pathlib.Path\<close> on a POSIX system is determined by its \<^verbatim>\<open>parts\<close> tuple, so a path
  is the list of its parts. An absolute path has its anchor (\<^verbatim>\<open>/\<close> or \<^verbatim>\<open>//\<close>) as first
  part; no other part contains a slash. Equality, hashing and the order that \<^verbatim>\<open>sorted\<close>
  uses (\<^verbatim>\<open>PurePath.__lt__\<close>) all go through the parts: two paths are compared as
  sequences of parts, part by part, each part as a string. This is the order of
  \<open>string list\<close> given by \<open>List_Lexorder\<close> over \<open>Char_ord\<close>.
\<close>

type_synonym path = "string list"

fun split_sep :: "string \<Rightarrow> string list" where
  "split_sep [] = [[]]"
| "split_sep (c # cs) =
     (if c = CHR ''/'' then [] # split_sep cs
      else (case split_sep cs of [] \<Rightarrow> [[c]] | w # ws \<Rightarrow> (c # w) # ws))"

definition is_anchor :: "string \<Rightarrow> bool" where
  "is_anchor c = (take 1 c = ''/'')"

text \<open>
  \<^verbatim>\<open>pathlib.Path(s)\<close>: the root is \<^verbatim>\<open>//\<close> for exactly two leading slashes and \<^verbatim>\<open>/\<close> for
  one or for three and more; empty segments and \<^verbatim>\<open>.\<close> segments are dropped, \<^verbatim>\<open>..\<close> is
  kept.
\<close>

definition Path :: "string \<Rightarrow> path" where
  "Path s =
     (let root = (if take 1 s \<noteq> ''/'' then []
                  else if take 1 (drop 1 s) \<noteq> ''/'' \<or> take 1 (drop 2 s) = ''/'' then [''/'']
                  else [''//''])
      in root @ filter (\<lambda>x. x \<noteq> [] \<and> x \<noteq> ''.'') (split_sep s))"

fun join_sep :: "string list \<Rightarrow> string" where
  "join_sep [] = []"
| "join_sep [c] = c"
| "join_sep (c # cs) = c @ ''/'' @ join_sep cs"

text \<open>\<^verbatim>\<open>str(p)\<close>: the anchor followed by the other parts joined by slashes; \<^verbatim>\<open>.\<close> for no part.\<close>

definition str_path :: "path \<Rightarrow> string" where
  "str_path p =
     (case p of
        [] \<Rightarrow> ''.''
      | c # cs \<Rightarrow> if is_anchor c then c @ join_sep cs else join_sep (c # cs))"

text \<open>
  \<^verbatim>\<open>p.parents\<close>: the proper prefixes of the parts, longest first, down to the anchor for
  an absolute path and down to the empty path \<^verbatim>\<open>Path('.')\<close> for a relative one.
\<close>

definition parents :: "path \<Rightarrow> path list" where
  "parents p =
     map (\<lambda>k. take k p)
       (rev [(if p \<noteq> [] \<and> is_anchor (hd p) then 1 else 0) ..< length p])"

text \<open>\<^verbatim>\<open>d / s\<close> for a string \<^verbatim>\<open>s\<close>: an absolute \<^verbatim>\<open>s\<close> replaces \<^verbatim>\<open>d\<close>.\<close>

definition joinpath :: "path \<Rightarrow> string \<Rightarrow> path" where
  "joinpath d s = (let q = Path s in if q \<noteq> [] \<and> is_anchor (hd q) then q else d @ q)"

subsection \<open>Exceptions\<close>

text \<open>
  The exception classes the program raises or converts, with their \<^verbatim>\<open>args\<close>. In Python
  \<^verbatim>\<open>KeyError\<close> and \<^verbatim>\<open>IndexError\<close> are subclasses of \<^verbatim>\<open>LookupError\<close>; \<^verbatim>\<open>mpd.CommandError\<close>,
  \<^verbatim>\<open>AttributeError\<close> and \<^verbatim>\<open>AssertionError\<close> are not.
\<close>

datatype exc_arg = Msg string | Key path

datatype py_error =
    LookupError "exc_arg list"
  | KeyError "exc_arg list"
  | IndexError "exc_arg list"
  | AttributeError "exc_arg list"
  | AssertionError
  | CommandError

fun is_LookupError :: "py_error \<Rightarrow> bool" where
  "is_LookupError (LookupError a) = True"
| "is_LookupError (KeyError a) = True"
| "is_LookupError (IndexError a) = True"
| "is_LookupError (AttributeError a) = False"
| "is_LookupError AssertionError = False"
| "is_LookupError CommandError = False"

fun args :: "py_error \<Rightarrow> exc_arg list" where
  "args (LookupError a) = a"
| "args (KeyError a) = a"
| "args (IndexError a) = a"
| "args (AttributeError a) = a"
| "args AssertionError = []"
| "args CommandError = []"

subsection \<open>The track catalog\<close>

text \<open>
  \<^verbatim>\<open>m.listall()\<close> returns one object per library entry; only the objects with a
  \<^verbatim>\<open>'file'\<close> key are tracks.
  \<^verbatim>\<open>
  all_track_paths = sorted(pathlib.Path(obj['file']) for obj in m.listall() if 'file' in obj)
  map_path_to_idx = {p: i for i, p in enumerate(all_track_paths)}
  ... "all_tracks": frozenset(range(len(all_track_paths)))
  \<close>
  A \<^verbatim>\<open>dict\<close> is an association list in insertion order; assigning to a key that is
  present replaces its value in place (\<open>AList.update\<close>).
\<close>

datatype listall_entry = File string | Directory string | Playlist string

fun file_of :: "listall_entry \<Rightarrow> string option" where
  "file_of (File f) = Some f"
| "file_of (Directory d) = None"
| "file_of (Playlist p) = None"

definition all_track_paths :: "listall_entry list \<Rightarrow> path list" where
  "all_track_paths objs = sort (map Path (List.map_filter file_of objs))"

definition map_path_to_idx :: "path list \<Rightarrow> (path \<times> int) list" where
  "map_path_to_idx ps = fold (\<lambda>(i, p) d. AList.update p (int i) d) (enumerate 0 ps) []"

definition all_tracks :: "path list \<Rightarrow> int fset" where
  "all_tracks ps = fset_of_list (map int [0 ..< length ps])"

subsection \<open>The music server client\<close>

text \<open>
  The client object \<^verbatim>\<open>m\<close> of \<^verbatim>\<open>mpd.MPDClient\<close> together with the server behind it, as far as
  the program uses them. \<open>calls\<close> is the log of the client methods invoked, in order.
  The server state read and written by the program is the library listing, the result of
  tag searches, the configured music directory, the stored playlists (name to the
  ordered list of track URIs) and the play queue. The effect of the commands follows the
  protocol of the server: \<^verbatim>\<open>listplaylist\<close> fails with \<^verbatim>\<open>mpd.CommandError\<close> for a name that
  is not stored, \<^verbatim>\<open>save\<close> stores the play queue under a new name, \<^verbatim>\<open>playlistclear\<close> leaves
  the named playlist empty, and \<^verbatim>\<open>playlistadd\<close> appends a URI to the named playlist,
  creating it when it is not stored. The commands issued between
  \<^verbatim>\<open>command_list_ok_begin\<close> and \<^verbatim>\<open>command_list_end\<close> are executed by the server as one
  batch; the program reads nothing in between, so each command is applied when it is
  issued. The server refuses \<^verbatim>\<open>save\<close> for a stored name; the program issues it only for a
  name whose \<^verbatim>\<open>listplaylist\<close> has just failed.
\<close>

datatype mpd_cmd =
    Listall
  | Find string
  | Config
  | ListPlaylist string
  | CommandListOkBegin
  | Save string
  | PlaylistClear string
  | PlaylistAdd string string
  | CommandListEnd

record mpd_client =
  library :: "listall_entry list"
  find_db :: "string \<Rightarrow> string list"
  music_directory :: string
  stored_playlists :: "string \<rightharpoonup> string list"
  queue :: "string list"
  calls :: "mpd_cmd list"

definition listall :: "mpd_client \<Rightarrow> listall_entry list \<times> mpd_client" where
  "listall m = (library m, m\<lparr>calls := calls m @ [Listall]\<rparr>)"

definition mpd_find :: "mpd_client \<Rightarrow> string \<Rightarrow> string list \<times> mpd_client" where
  "mpd_find m expr = (find_db m expr, m\<lparr>calls := calls m @ [Find expr]\<rparr>)"

definition config :: "mpd_client \<Rightarrow> string \<times> mpd_client" where
  "config m = (music_directory m, m\<lparr>calls := calls m @ [Config]\<rparr>)"

definition listplaylist :: "mpd_client \<Rightarrow> string \<Rightarrow> (py_error + string list) \<times> mpd_client" where
  "listplaylist m name =
     ((case stored_playlists m name of None \<Rightarrow> Inl CommandError | Some xs \<Rightarrow> Inr xs),
      m\<lparr>calls := calls m @ [ListPlaylist name]\<rparr>)"

definition command_list_ok_begin :: "mpd_client \<Rightarrow> mpd_client" where
  "command_list_ok_begin m = m\<lparr>calls := calls m @ [CommandListOkBegin]\<rparr>"

definition command_list_end :: "mpd_client \<Rightarrow> mpd_client" where
  "command_list_end m = m\<lparr>calls := calls m @ [CommandListEnd]\<rparr>"

definition save :: "mpd_client \<Rightarrow> string \<Rightarrow> mpd_client" where
  "save m name =
     m\<lparr>stored_playlists := (stored_playlists m)(name \<mapsto> queue m),
       calls := calls m @ [Save name]\<rparr>"

definition playlistclear :: "mpd_client \<Rightarrow> string \<Rightarrow> mpd_client" where
  "playlistclear m name =
     m\<lparr>stored_playlists := (stored_playlists m)(name \<mapsto> []),
       calls := calls m @ [PlaylistClear name]\<rparr>"

definition playlistadd :: "mpd_client \<Rightarrow> string \<Rightarrow> string \<Rightarrow> mpd_client" where
  "playlistadd m name uri =
     m\<lparr>stored_playlists := (stored_playlists m)
          (name \<mapsto> (case stored_playlists m name of None \<Rightarrow> [] | Some xs \<Rightarrow> xs) @ [uri]),
       calls := calls m @ [PlaylistAdd name uri]\<rparr>"

text \<open>
  A small library used for the concrete instances below: three tracks, one stored
  playlist, and one track tagged with the genre \<^verbatim>\<open>Rock\<close>.
\<close>

definition example_client :: mpd_client where
  "example_client =
     \<lparr>library = [File ''b/3.mp3'', Directory ''a'', File ''a/2.mp3'', File ''a/1.mp3''],
      find_db = (\<lambda>expr. if expr = ''(Genre == '' @ [CHR 0x27] @ ''Rock'' @ [CHR 0x27] @ '')''
                         then [''a/2.mp3''] else []),
      music_directory = ''/srv/music'',
      stored_playlists = [''foo'' \<mapsto> [''b/3.mp3'']],
      queue = [''a/1.mp3''],
      calls = []\<rparr>"

definition example_p2i :: "(path \<times> int) list" where
  "example_p2i = map_path_to_idx (all_track_paths (library example_client))"

subsection \<open>DbAccessor\<close>

text \<open>
  \<^verbatim>\<open>
  def __getitem__(self, arg):
      try:
          return self._cache[arg]
      except KeyError:
          pass
      try:
          ret = self._cache[arg] = self._lookup(arg)
          return ret
      except LookupError as e:
          raise IndexError(*e.args)

  def __getattr__(self, arg):
      try:
          return self.__getitem__(arg)
      except LookupError as e:
          raise AttributeError(*e.args)
  \<close>
  The subclass's \<^verbatim>\<open>_lookup\<close> is a parameter; it reads and changes the world \<open>'w\<close> outside
  the accessor (the client). \<^verbatim>\<open>__getattr__\<close> calls the \<^verbatim>\<open>__getitem__\<close> of the object's
  own class, which is a parameter as well.
\<close>

definition db_getitem ::
  "('w \<Rightarrow> string \<Rightarrow> (py_error + 'v) \<times> 'w) \<Rightarrow> (string \<rightharpoonup> 'v) \<times> 'w \<Rightarrow> string
     \<Rightarrow> (py_error + 'v) \<times> (string \<rightharpoonup> 'v) \<times> 'w" where
  "db_getitem lookup s arg =
     (case s of (cache, w) \<Rightarrow>
        (case cache arg of
           Some v \<Rightarrow> (Inr v, cache, w)
         | None \<Rightarrow>
             (case lookup w arg of
                (Inr v, w') \<Rightarrow> (Inr v, cache(arg \<mapsto> v), w')
              | (Inl e, w') \<Rightarrow>
                  ((if is_LookupError e then Inl (IndexError (args e)) else Inl e), cache, w'))))"

definition db_getattr ::
  "('s \<Rightarrow> string \<Rightarrow> (py_error + 'v) \<times> 's) \<Rightarrow> 's \<Rightarrow> string \<Rightarrow> (py_error + 'v) \<times> 's" where
  "db_getattr getitem s arg =
     (case getitem s arg of
        (Inr v, s') \<Rightarrow> (Inr v, s')
      | (Inl e, s') \<Rightarrow>
          ((if is_LookupError e then Inl (AttributeError (args e)) else Inl e), s'))"

subsection \<open>PlaylistAccessor\<close>

text \<open>
  A value stored for a playlist is a set of track indices (\<^verbatim>\<open>set\<close>, \<^verbatim>\<open>frozenset\<close>) or an
  ordered sequence of them (the \<^verbatim>\<open>tuple\<close> that \<^verbatim>\<open>_lookup\<close> returns, or a list or tuple
  the rule script assigns). Track indices are Python integers.
\<close>

datatype track_value = TrackSet "int fset" | TrackSeq "int list"

record playlist_accessor =
  mpd :: mpd_client
  cache :: "string \<rightharpoonup> track_value"
  frozen_keys :: "string set"
  generated_playlists :: "(string \<times> track_value) list"

definition new_playlist_accessor :: "mpd_client \<Rightarrow> playlist_accessor" where
  "new_playlist_accessor m =
     \<lparr>mpd = m, cache = Map.empty, frozen_keys = {}, generated_playlists = []\<rparr>"

definition no_such_playlist :: "string \<Rightarrow> string" where
  "no_such_playlist arg = ''No such playlist '' @ [CHR 0x22] @ arg @ [CHR 0x22]"

text \<open>
  \<^verbatim>\<open>
  def _lookup(self, arg):
      try:
          raw_result = self._mpd.listplaylist(arg)
      except mpd.CommandError:
          raise LookupError(f"No such playlist \"{arg}\"")
      p2i = self._map_path_to_idx
      result = [p2i.get(pathlib.Path(x)) for x in raw_result]
      return tuple([x for x in result if x is not None])
  \<close>
\<close>

definition playlist_lookup ::
  "(path \<times> int) list \<Rightarrow> mpd_client \<Rightarrow> string \<Rightarrow> (py_error + track_value) \<times> mpd_client" where
  "playlist_lookup p2i m arg =
     (case listplaylist m arg of
        (Inl e, m') \<Rightarrow>
          ((if e = CommandError then Inl (LookupError [Msg (no_such_playlist arg)]) else Inl e), m')
      | (Inr raw_result, m') \<Rightarrow>
          (Inr (TrackSeq (List.map_filter (\<lambda>x. map_of p2i (Path x)) raw_result)), m'))"

text \<open>
  \<^verbatim>\<open>
  def __getitem__(self, arg):
      try:
          return super().__getitem__(arg)
      finally:
          self.__frozen_keys.add(arg)
  \<close>
\<close>

definition playlist_getitem ::
  "(path \<times> int) list \<Rightarrow> playlist_accessor \<Rightarrow> string
     \<Rightarrow> (py_error + track_value) \<times> playlist_accessor" where
  "playlist_getitem p2i st arg =
     (case db_getitem (playlist_lookup p2i) (cache st, mpd st) arg of
        (r, cache', m') \<Rightarrow>
          (r, st\<lparr>mpd := m', cache := cache', frozen_keys := insert arg (frozen_keys st)\<rparr>))"

definition playlist_getattr ::
  "(path \<times> int) list \<Rightarrow> playlist_accessor \<Rightarrow> string
     \<Rightarrow> (py_error + track_value) \<times> playlist_accessor" where
  "playlist_getattr p2i st arg = db_getattr (playlist_getitem p2i) st arg"

definition cannot_modify :: "string \<Rightarrow> string" where
  "cannot_modify key =
     ''Cannot modify playlist '' @ key
       @ '' after its contents have already been queried for something else''"

text \<open>
  \<^verbatim>\<open>
  def __setitem__(self, key, value):
      if key in self.__frozen_keys:
          raise KeyError(f"Cannot modify playlist {key} after its contents have ...")
      self.__generated_playlists[key] = self._cache[key] = value
  \<close>
  The statement returns \<^verbatim>\<open>None\<close>.
\<close>

definition playlist_setitem ::
  "playlist_accessor \<Rightarrow> string \<Rightarrow> track_value \<Rightarrow> (py_error + unit) \<times> playlist_accessor" where
  "playlist_setitem st key v =
     (if key \<in> frozen_keys st then (Inl (KeyError [Msg (cannot_modify key)]), st)
      else (Inr (),
            st\<lparr>generated_playlists := AList.update key v (generated_playlists st),
               cache := (cache st)(key \<mapsto> v)\<rparr>))"

text \<open>
  The rule script reaches the accessor through three operations: \<^verbatim>\<open>playlist[name]\<close>,
  \<^verbatim>\<open>playlist.name\<close> (for a name that is not an attribute of the object) and
  \<^verbatim>\<open>playlist[name] = value\<close>. A script may catch an exception and go on, so a cycle is
  any sequence of them.
\<close>

datatype pl_op = Getitem string | Getattr string | Setitem string track_value

fun pl_step ::
  "(path \<times> int) list \<Rightarrow> playlist_accessor \<Rightarrow> pl_op
     \<Rightarrow> (py_error + track_value option) \<times> playlist_accessor" where
  "pl_step p2i st (Getitem n) =
     (case playlist_getitem p2i st n of (r, st') \<Rightarrow> (map_sum id Some r, st'))"
| "pl_step p2i st (Getattr n) =
     (case playlist_getattr p2i st n of (r, st') \<Rightarrow> (map_sum id Some r, st'))"
| "pl_step p2i st (Setitem n v) =
     (case playlist_setitem st n v of (r, st') \<Rightarrow> (map_sum id (\<lambda>u. None) r, st'))"

definition pl_exec :: "(path \<times> int) list \<Rightarrow> playlist_accessor \<Rightarrow> pl_op list \<Rightarrow> playlist_accessor" where
  "pl_exec p2i st ops = fold (\<lambda>op s. snd (pl_step p2i s op)) ops st"

fun read_name :: "pl_op \<Rightarrow> string option" where
  "read_name (Getitem n) = Some n"
| "read_name (Getattr n) = Some n"
| "read_name (Setitem n v) = None"

subsection \<open>GenreAccessor\<close>

text \<open>
  \<^verbatim>\<open>
  def _lookup(self, arg):
      raw_result = self._mpd.find(f"(Genre == '{arg}')")
      p2i = self._map_path_to_idx
      result = [p2i.get(pathlib.Path(x['file'])) for x in raw_result]
      return frozenset([x for x in result if x is not None])
  \<close>
  A song returned by \<^verbatim>\<open>find\<close> is represented by its \<^verbatim>\<open>'file'\<close> entry.
\<close>

definition genre_expr :: "string \<Rightarrow> string" where
  "genre_expr arg = ''(Genre == '' @ [CHR 0x27] @ arg @ [CHR 0x27] @ '')''"

definition genre_lookup ::
  "(path \<times> int) list \<Rightarrow> mpd_client \<Rightarrow> string \<Rightarrow> (py_error + int fset) \<times> mpd_client" where
  "genre_lookup p2i m arg =
     (case mpd_find m (genre_expr arg) of
        (raw_result, m') \<Rightarrow>
          (Inr (fset_of_list (List.map_filter (\<lambda>x. map_of p2i (Path x)) raw_result)), m'))"

definition genre_getitem ::
  "(path \<times> int) list \<Rightarrow> (string \<rightharpoonup> int fset) \<times> mpd_client \<Rightarrow> string
     \<Rightarrow> (py_error + int fset) \<times> (string \<rightharpoonup> int fset) \<times> mpd_client" where
  "genre_getitem p2i s arg = db_getitem (genre_lookup p2i) s arg"

definition genre_getattr ::
  "(path \<times> int) list \<Rightarrow> (string \<rightharpoonup> int fset) \<times> mpd_client \<Rightarrow> string
     \<Rightarrow> (py_error + int fset) \<times> (string \<rightharpoonup> int fset) \<times> mpd_client" where
  "genre_getattr p2i s arg = db_getattr (genre_getitem p2i) s arg"

definition genre_exec ::
  "(path \<times> int) list \<Rightarrow> (string \<rightharpoonup> int fset) \<times> mpd_client \<Rightarrow> string list
     \<Rightarrow> (string \<rightharpoonup> int fset) \<times> mpd_client" where
  "genre_exec p2i s names = fold (\<lambda>n s. snd (genre_getitem p2i s n)) names s"

subsection \<open>LabelAccessor\<close>

text \<open>
  \<^verbatim>\<open>
  @functools.cached_property
  def __all_tracks_by_path(self):
      result = collections.defaultdict(list)
      for p, i in self._map_path_to_idx.items():
          result[p].append(i)
          for parent in p.parents:
              result[parent].append(i)
      return {p: frozenset(l) for p, l in result.items()}
  \<close>
  The property is computed from \<^verbatim>\<open>_map_path_to_idx\<close> alone, which never changes, so
  caching it does not change its value. The result is an ordinary \<^verbatim>\<open>dict\<close>: a path that
  was never registered is not a key.
\<close>

definition dd_get :: "(path \<rightharpoonup> int list) \<Rightarrow> path \<Rightarrow> int list" where
  "dd_get result q = (case result q of None \<Rightarrow> [] | Some l \<Rightarrow> l)"

definition register :: "int \<Rightarrow> path \<Rightarrow> (path \<rightharpoonup> int list) \<Rightarrow> (path \<rightharpoonup> int list)" where
  "register i q result = result(q \<mapsto> dd_get result q @ [i])"

definition register_tracks ::
  "(path \<times> int) list \<Rightarrow> (path \<rightharpoonup> int list) \<Rightarrow> (path \<rightharpoonup> int list)" where
  "register_tracks items result =
     fold (\<lambda>(p, i) result. fold (register i) (p # parents p) result) items result"

definition all_tracks_by_path :: "(path \<times> int) list \<Rightarrow> (path \<rightharpoonup> int fset)" where
  "all_tracks_by_path items = map_option fset_of_list \<circ> register_tracks items Map.empty"

text \<open>
  The Ancestor Index as the data model describes it: the indices of the tracks whose
  path is \<open>q\<close> or has \<open>q\<close> among its ancestors.
\<close>

definition tracks_under :: "(path \<times> int) list \<Rightarrow> path \<Rightarrow> int fset" where
  "tracks_under items q =
     fset_of_list (map snd (filter (\<lambda>(p, i). q \<in> set (p # parents p)) items))"

text \<open>
  The content of a rule file as \<^verbatim>\<open>yaml.safe_load\<close> returns it: \<^verbatim>\<open>None\<close> for an empty
  document, or a \<^verbatim>\<open>dict\<close> (in document order) from the top-level keys to \<^verbatim>\<open>None\<close> or a
  list of subpath strings. The library tree is read through \<^verbatim>\<open>music_root.rglob\<close>: for
  a root and a file-name pattern it yields the matching files in traversal order, each
  given by its path relative to the root (what \<^verbatim>\<open>tag_file.relative_to(music_root)\<close>
  returns) and by its loaded content.
\<close>

datatype yaml_doc = YamlNone | YamlDict "(string \<times> string list option) list"

type_synonym library_tree = "path \<Rightarrow> string \<Rightarrow> (path \<times> yaml_doc) list"

definition label_file_name :: "string \<Rightarrow> string" where
  "label_file_name arg = ''.label.'' @ arg @ ''.yml''"

text \<open>
  The two inner loops:
  \<^verbatim>\<open>
  for p in given_list:
      result -= all_tracks_by_path[tag_file_dir / p]      # key "all_except"
  for p in given_list:
      result |= all_tracks_by_path[tag_file_dir / p]      # key "none_except"
  \<close>
  Subscripting the \<^verbatim>\<open>dict\<close> with a path that is not a key raises \<^verbatim>\<open>KeyError(path)\<close>.
\<close>

fun remove_listed ::
  "(path \<rightharpoonup> int fset) \<Rightarrow> path \<Rightarrow> string list \<Rightarrow> int fset \<Rightarrow> py_error + int fset" where
  "remove_listed idx d [] result = Inr result"
| "remove_listed idx d (p # ps) result =
     (case idx (joinpath d p) of
        None \<Rightarrow> Inl (KeyError [Key (joinpath d p)])
      | Some s \<Rightarrow> remove_listed idx d ps (result |-| s))"

fun add_listed ::
  "(path \<rightharpoonup> int fset) \<Rightarrow> path \<Rightarrow> string list \<Rightarrow> int fset \<Rightarrow> py_error + int fset" where
  "add_listed idx d [] result = Inr result"
| "add_listed idx d (p # ps) result =
     (case idx (joinpath d p) of
        None \<Rightarrow> Inl (KeyError [Key (joinpath d p)])
      | Some s \<Rightarrow> add_listed idx d ps (result |\<union>| s))"

text \<open>
  The body of the loop over the rule files found:
  \<^verbatim>\<open>
  tag_file_dir = tag_file.relative_to(music_root).parent
  key, given_list = tag_file_content.popitem()
  assert len(tag_file_content) == 0
  if key == "all_except":
      result |= all_tracks_by_path[tag_file_dir]
      if given_list is not None: ...
  elif key == "none_except":
      result -= all_tracks_by_path[tag_file_dir]
      if given_list is not None: ...
  \<close>
  \<^verbatim>\<open>popitem\<close> removes and returns the last pair of the \<^verbatim>\<open>dict\<close> and raises
  \<^verbatim>\<open>KeyError('popitem(): dictionary is empty')\<close> on an empty one; \<^verbatim>\<open>None\<close> has no
  attribute \<^verbatim>\<open>popitem\<close>.
\<close>

definition none_has_no_popitem :: string where
  "none_has_no_popitem =
     [CHR 0x27] @ ''NoneType'' @ [CHR 0x27] @ '' object has no attribute ''
       @ [CHR 0x27] @ ''popitem'' @ [CHR 0x27]"

definition apply_tag_file ::
  "(path \<rightharpoonup> int fset) \<Rightarrow> int fset \<Rightarrow> path \<times> yaml_doc \<Rightarrow> py_error + int fset" where
  "apply_tag_file idx result tf =
     (case tf of (tag_file, tag_file_content) \<Rightarrow>
        (let tag_file_dir = butlast tag_file in
         case tag_file_content of
           YamlNone \<Rightarrow> Inl (AttributeError [Msg none_has_no_popitem])
         | YamlDict items \<Rightarrow>
             if items = [] then Inl (KeyError [Msg ''popitem(): dictionary is empty''])
             else (case last items of (key, given_list) \<Rightarrow>
               if butlast items \<noteq> [] then Inl AssertionError
               else if key = ''all_except'' then
                 (case idx tag_file_dir of
                    None \<Rightarrow> Inl (KeyError [Key tag_file_dir])
                  | Some s \<Rightarrow>
                      (case given_list of
                         None \<Rightarrow> Inr (result |\<union>| s)
                       | Some ps \<Rightarrow> remove_listed idx tag_file_dir ps (result |\<union>| s)))
               else if key = ''none_except'' then
                 (case idx tag_file_dir of
                    None \<Rightarrow> Inl (KeyError [Key tag_file_dir])
                  | Some s \<Rightarrow>
                      (case given_list of
                         None \<Rightarrow> Inr (result |-| s)
                       | Some ps \<Rightarrow> add_listed idx tag_file_dir ps (result |-| s)))
               else Inr result)))"

fun apply_tag_files ::
  "(path \<rightharpoonup> int fset) \<Rightarrow> int fset \<Rightarrow> (path \<times> yaml_doc) list \<Rightarrow> py_error + int fset" where
  "apply_tag_files idx result [] = Inr result"
| "apply_tag_files idx result (tf # tfs) =
     (case apply_tag_file idx result tf of
        Inl e \<Rightarrow> Inl e
      | Inr result' \<Rightarrow> apply_tag_files idx result' tfs)"

text \<open>
  \<^verbatim>\<open>
  def _lookup(self, arg):
      result = set()
      all_tracks_by_path = self.__all_tracks_by_path
      music_root = pathlib.Path(self._mpd.config())
      label_found = False
      yml_file_name = f'.label.{arg}.yml'
      for tag_file in music_root.rglob(yml_file_name):
          ...
          label_found = True
          ...
      if not label_found:
          raise LookupError(f"No file found named {yml_file_name}")
      return frozenset(result)
  \<close>
  \<^verbatim>\<open>label_found\<close> stays false exactly when the search yields no file.
\<close>

definition label_lookup ::
  "library_tree \<Rightarrow> (path \<times> int) list \<Rightarrow> mpd_client \<Rightarrow> string
     \<Rightarrow> (py_error + int fset) \<times> mpd_client" where
  "label_lookup tree p2i m arg =
     (case config m of
        (root, m') \<Rightarrow>
          (let found = tree (Path root) (label_file_name arg) in
           case apply_tag_files (all_tracks_by_path p2i) {||} found of
             Inl e \<Rightarrow> (Inl e, m')
           | Inr result \<Rightarrow>
               if found = []
               then (Inl (LookupError [Msg (''No file found named '' @ label_file_name arg)]), m')
               else (Inr result, m')))"

definition label_getitem ::
  "library_tree \<Rightarrow> (path \<times> int) list \<Rightarrow> (string \<rightharpoonup> int fset) \<times> mpd_client \<Rightarrow> string
     \<Rightarrow> (py_error + int fset) \<times> (string \<rightharpoonup> int fset) \<times> mpd_client" where
  "label_getitem tree p2i s arg = db_getitem (label_lookup tree p2i) s arg"

definition label_getattr ::
  "library_tree \<Rightarrow> (path \<times> int) list \<Rightarrow> (string \<rightharpoonup> int fset) \<times> mpd_client \<Rightarrow> string
     \<Rightarrow> (py_error + int fset) \<times> (string \<rightharpoonup> int fset) \<times> mpd_client" where
  "label_getattr tree p2i s arg = db_getattr (label_getitem tree p2i) s arg"

definition label_exec ::
  "library_tree \<Rightarrow> (path \<times> int) list \<Rightarrow> (string \<rightharpoonup> int fset) \<times> mpd_client \<Rightarrow> string list
     \<Rightarrow> (string \<rightharpoonup> int fset) \<times> mpd_client" where
  "label_exec tree p2i s names = fold (\<lambda>n s. snd (label_getitem tree p2i s n)) names s"

text \<open>
  The search \<^verbatim>\<open>music_root.rglob(yml_file_name)\<close> of \<^verbatim>\<open>pathlib\<close>. The argument is a glob
  pattern, and \<^verbatim>\<open>_lookup\<close> puts the label name into it as it is. A pattern component
  with one of the characters \<^verbatim>\<open>*\<close>, \<^verbatim>\<open>?\<close> and \<^verbatim>\<open>[\<close> is matched against a file name
  by the regular expression of \<^verbatim>\<open>fnmatch.translate\<close>, case-sensitively; any other
  component must equal the name.

  \<^verbatim>\<open>fnmatch.translate\<close>: \<^verbatim>\<open>*\<close> matches any sequence of characters, \<^verbatim>\<open>?\<close> any single
  character, \<^verbatim>\<open>[seq]\<close> a character of \<open>seq\<close> and \<^verbatim>\<open>[!seq]\<close> a character not in it; a
  \<^verbatim>\<open>[\<close> with no closing \<^verbatim>\<open>]\<close> stands for itself, and a \<^verbatim>\<open>]\<close> right after \<^verbatim>\<open>[\<close> or
  \<^verbatim>\<open>[!\<close> belongs to \<open>seq\<close>. Inside \<open>seq\<close> a hyphen between two characters makes a
  range; \<open>seq\<close> is cut into chunks at these hyphens (the first hyphen is looked for
  from the second character on, from the third after a leading \<^verbatim>\<open>!\<close>, and each
  further one from the third character of its chunk on; a hyphen that ends \<open>seq\<close> is
  put back on the last chunk), and a range whose lower end is greater than its upper
  end is removed together with both ends, from the last range to the first.
\<close>

datatype glob_item =
  Star | AnyChar | Lit char | CharClass bool "char list" "(char \<times> char) list" | NoChar

fun chunks_of :: "nat \<Rightarrow> string \<Rightarrow> string \<Rightarrow> string list" where
  "chunks_of n cur [] = [cur]"
| "chunks_of n cur (c # cs) =
     (if c = CHR ''-'' \<and> n = 0 then cur # chunks_of 2 [] cs
      else chunks_of (n - 1) (cur @ [c]) cs)"

definition close_chunks :: "string list \<Rightarrow> string list" where
  "close_chunks chunks =
     (if chunks \<noteq> [] \<and> last chunks = [] \<and> butlast chunks \<noteq> []
      then butlast (butlast chunks) @ [last (butlast chunks) @ ''-'']
      else chunks)"

fun drop_empty_ranges :: "string list \<Rightarrow> string list" where
  "drop_empty_ranges [] = []"
| "drop_empty_ranges [a] = [a]"
| "drop_empty_ranges (a # b # bs) =
     (case drop_empty_ranges (b # bs) of
        [] \<Rightarrow> [a]
      | b' # bs' \<Rightarrow>
          if a \<noteq> [] \<and> b' \<noteq> [] \<and> last a > hd b' then (butlast a @ tl b') # bs'
          else a # b' # bs')"

fun ranges_of :: "string list \<Rightarrow> (char \<times> char) list" where
  "ranges_of (a # b # bs) =
     (if a \<noteq> [] \<and> b \<noteq> [] then [(last a, hd b)] else []) @ ranges_of (b # bs)"
| "ranges_of bs = []"

text \<open>
  The set between the brackets: no character when nothing is left of it, any character
  when only \<^verbatim>\<open>!\<close> is left, the complement when what is left starts with \<^verbatim>\<open>!\<close>.
\<close>

definition char_class :: "string \<Rightarrow> glob_item" where
  "char_class stuff =
     (let chunks =
            (if CHR ''-'' \<notin> set stuff then [stuff]
             else drop_empty_ranges
                    (close_chunks (chunks_of (if take 1 stuff = ''!'' then 2 else 1) [] stuff)))
      in if chunks = [[]] then NoChar
         else if chunks = [''!''] then AnyChar
         else if take 1 (concat chunks) = ''!'' \<and> take 1 (hd chunks) = ''!''
           then CharClass True (tl (concat chunks)) (ranges_of chunks)
           else CharClass False (concat chunks) (ranges_of chunks))"

definition closable :: "string \<Rightarrow> bool" where
  "closable cs =
     (let r1 = (if take 1 cs = ''!'' then tl cs else cs);
          r2 = (if take 1 r1 = '']'' then tl r1 else r1)
      in CHR '']'' \<in> set r2)"

text \<open>
  The pattern is read from left to right; the first argument is \<open>None\<close> outside
  brackets and holds the characters read since the opening bracket inside.
\<close>

fun translate :: "string option \<Rightarrow> string \<Rightarrow> glob_item list" where
  "translate None [] = []"
| "translate None (c # cs) =
     (if c = CHR ''*'' then Star # translate None cs
      else if c = CHR ''?'' then AnyChar # translate None cs
      else if c = CHR ''['' then
        (if closable cs then translate (Some []) cs else Lit c # translate None cs)
      else Lit c # translate None cs)"
| "translate (Some stuff) [] = []"
| "translate (Some stuff) (c # cs) =
     (if c = CHR '']'' \<and> stuff \<noteq> [] \<and> stuff \<noteq> ''!''
      then char_class stuff # translate None cs
      else translate (Some (stuff @ [c])) cs)"

fun item_matches :: "glob_item \<Rightarrow> char \<Rightarrow> bool" where
  "item_matches Star c = True"
| "item_matches AnyChar c = True"
| "item_matches (Lit a) c = (a = c)"
| "item_matches (CharClass neg singles ranges) c =
     (neg \<noteq> (c \<in> set singles \<or> list_ex (\<lambda>(lo, hi). lo \<le> c \<and> c \<le> hi) ranges))"
| "item_matches NoChar c = False"

fun matches :: "glob_item list \<Rightarrow> string \<Rightarrow> bool" where
  "matches [] s = (s = [])"
| "matches (Star # ps) [] = matches ps []"
| "matches (Star # ps) (c # cs) = (matches ps (c # cs) \<or> matches (Star # ps) cs)"
| "matches (p # ps) [] = False"
| "matches (p # ps) (c # cs) = (item_matches p c \<and> matches ps cs)"

definition fnmatch :: "string \<Rightarrow> string \<Rightarrow> bool" where
  "fnmatch pat name = matches (translate None pat) name"

definition is_wildcard_pattern :: "string \<Rightarrow> bool" where
  "is_wildcard_pattern pat =
     (CHR ''*'' \<in> set pat \<or> CHR ''?'' \<in> set pat \<or> CHR ''['' \<in> set pat)"

text \<open>
  \<^verbatim>\<open>rglob(pattern)\<close> selects with the components of the pattern behind a leading
  \<^verbatim>\<open>**\<close>. \<open>select_from parts f\<close> tells whether the file with the relative path \<open>f\<close> is
  selected: a component \<^verbatim>\<open>**\<close> stands for any number of directories, a wildcard
  component matches one name by \<open>fnmatch\<close>, any other component is one name.
\<close>

fun select_from :: "string list \<Rightarrow> path \<Rightarrow> bool" where
  "select_from [] f = (f = [])"
| "select_from (p # ps) [] = False"
| "select_from (p # ps) (c # cs) =
     (if p = ''**'' then select_from ps (c # cs) \<or> (cs \<noteq> [] \<and> select_from (p # ps) cs)
      else (if is_wildcard_pattern p then fnmatch p c else p = c) \<and> select_from ps cs)"

fun has_double_star :: "string \<Rightarrow> bool" where
  "has_double_star (a # b # cs) = ((a = CHR ''*'' \<and> b = CHR ''*'') \<or> has_double_star (b # cs))"
| "has_double_star cs = False"

text \<open>
  The files below a root directory, with the paths relative to it and the loaded
  contents, in the order in which the search visits them; the search yields the
  selected ones. Left out: \<^verbatim>\<open>rglob\<close> raises \<^verbatim>\<open>ValueError\<close> for a component that contains
  \<^verbatim>\<open>**\<close> and is longer (nothing is yielded here), it walks through a component \<^verbatim>\<open>..\<close>,
  it also yields a directory with a matching name, and for a pattern of several
  components (a label name with a slash) it may visit the files in another order.
\<close>

type_synonym library_files = "path \<Rightarrow> (path \<times> yaml_doc) list"

definition rglob :: "library_files \<Rightarrow> library_tree" where
  "rglob files root pattern =
     (if list_ex (\<lambda>p. p \<noteq> ''**'' \<and> has_double_star p) (Path pattern) then []
      else filter (\<lambda>(f, tag_file_content). select_from (''**'' # Path pattern) f) (files root))"

text \<open>
  A library for the concrete instances: the rule file of label \<^verbatim>\<open>foo\<close> at the root
  excludes the directory \<^verbatim>\<open>a\<close>, the rule file of label \<^verbatim>\<open>two\<close> in directory \<^verbatim>\<open>a\<close>
  selects one track, the rule file of label \<^verbatim>\<open>void\<close> is an empty mapping, the one of
  label \<^verbatim>\<open>both\<close> has two keys, and the one of label \<^verbatim>\<open>gone\<close> names a directory
  without tracks. A second library has the rule file of label \<^verbatim>\<open>foo\<close> only.
\<close>

definition example_files :: library_files where
  "example_files root =
     (if root \<noteq> Path ''/srv/music'' then []
      else [([''.label.foo.yml''], YamlDict [(''all_except'', Some [''a''])]),
            ([''.label.void.yml''], YamlDict []),
            ([''.label.both.yml''], YamlDict [(''all_except'', None), (''none_except'', None)]),
            ([''.label.gone.yml''], YamlDict [(''all_except'', Some [''c''])]),
            ([''a'', ''.label.two.yml''], YamlDict [(''none_except'', Some [''2.mp3''])])])"

definition example_tree :: library_tree where
  "example_tree = rglob example_files"

definition foo_only_files :: library_files where
  "foo_only_files root =
     (if root \<noteq> Path ''/srv/music'' then []
      else [([''.label.foo.yml''], YamlDict [(''all_except'', Some [''a''])])])"

text \<open>
  The paths at which the loop body subscripts \<^verbatim>\<open>all_tracks_by_path\<close> for one rule file:
  the rule file's own directory and that directory joined with each listed subpath,
  when the file has a single key that is \<^verbatim>\<open>all_except\<close> or \<^verbatim>\<open>none_except\<close>. For any
  other content the body raises or passes before the first subscript.
\<close>

definition referenced_paths :: "path \<times> yaml_doc \<Rightarrow> path list" where
  "referenced_paths tf =
     (case tf of (tag_file, tag_file_content) \<Rightarrow>
        (case tag_file_content of
           YamlNone \<Rightarrow> []
         | YamlDict items \<Rightarrow>
             if items = [] \<or> butlast items \<noteq> [] then []
             else (case last items of (key, given_list) \<Rightarrow>
               if key = ''all_except'' \<or> key = ''none_except''
               then butlast tag_file
                      # map (joinpath (butlast tag_file))
                          (case given_list of None \<Rightarrow> [] | Some ps \<Rightarrow> ps)
               else [])))"

subsection \<open>The Sync Engine\<close>

text \<open>
  The loop that ends \<^verbatim>\<open>generate_all\<close>:
  \<^verbatim>\<open>
  for name, track_idxs in generated_playlists.items():
      if isinstance(track_idxs, (set, frozenset)):
          track_idxs = sorted(track_idxs)
      track_names = [str(all_track_paths[i]) for i in track_idxs]
  \<close>
  Subscripting a list with an integer counts a negative index from the end and raises
  \<^verbatim>\<open>IndexError\<close> out of range.
\<close>

definition list_getitem :: "'a list \<Rightarrow> int \<Rightarrow> py_error + 'a" where
  "list_getitem xs i =
     (let n = int (length xs); j = (if i < 0 then n + i else i)
      in if 0 \<le> j \<and> j < n then Inr (xs ! nat j)
         else Inl (IndexError [Msg ''list index out of range'']))"

definition ordered_idxs :: "track_value \<Rightarrow> int list" where
  "ordered_idxs track_idxs =
     (case track_idxs of TrackSet s \<Rightarrow> sorted_list_of_fset s | TrackSeq xs \<Rightarrow> xs)"

fun track_names_of :: "path list \<Rightarrow> int list \<Rightarrow> py_error + string list" where
  "track_names_of paths [] = Inr []"
| "track_names_of paths (i # idxs) =
     (case list_getitem paths i of
        Inl e \<Rightarrow> Inl e
      | Inr p \<Rightarrow>
          (case track_names_of paths idxs of
             Inl e \<Rightarrow> Inl e
           | Inr names \<Rightarrow> Inr (str_path p # names)))"

text \<open>\<^verbatim>\<open>for x in track_names: m.playlistadd(name, x)\<close>\<close>

fun add_each :: "mpd_client \<Rightarrow> string \<Rightarrow> string list \<Rightarrow> mpd_client" where
  "add_each m name [] = m"
| "add_each m name (x # xs) = add_each (playlistadd m name x) name xs"

text \<open>
  The rest of the loop body (the \<^verbatim>\<open>print\<close> calls are left out):
  \<^verbatim>\<open>
  try:
      old_track_names = m.listplaylist(name)
  except mpd.CommandError:
      old_track_names = []
      already_exists = False
  else:
      already_exists = True

  if not already_exists and not track_names:
      m.command_list_ok_begin()
      m.save(name)
      m.playlistclear(name)
      m.command_list_end()
  elif track_names != old_track_names:
      m.command_list_ok_begin()
      if already_exists:
          m.playlistclear(name)
      for x in track_names:
          m.playlistadd(name, x)
      m.command_list_end()
  else:
      (no call)
  \<close>
\<close>

definition send_playlist ::
  "mpd_client \<Rightarrow> string \<Rightarrow> string list \<Rightarrow> string list \<Rightarrow> bool \<Rightarrow> mpd_client" where
  "send_playlist m name track_names old_track_names already_exists =
     (if \<not> already_exists \<and> track_names = [] then
        command_list_end (playlistclear (save (command_list_ok_begin m) name) name)
      else if track_names \<noteq> old_track_names then
        command_list_end
          (add_each
             (if already_exists then playlistclear (command_list_ok_begin m) name
              else command_list_ok_begin m)
             name track_names)
      else m)"

definition sync_playlist ::
  "path list \<Rightarrow> mpd_client \<Rightarrow> string \<times> track_value \<Rightarrow> (py_error + unit) \<times> mpd_client" where
  "sync_playlist paths m g =
     (case g of (name, track_idxs) \<Rightarrow>
        (case track_names_of paths (ordered_idxs track_idxs) of
           Inl e \<Rightarrow> (Inl e, m)
         | Inr track_names \<Rightarrow>
             (case listplaylist m name of
                (Inr old_track_names, m') \<Rightarrow>
                  (Inr (), send_playlist m' name track_names old_track_names True)
              | (Inl e, m') \<Rightarrow>
                  if e = CommandError
                  then (Inr (), send_playlist m' name track_names [] False)
                  else (Inl e, m'))))"

fun sync_all ::
  "path list \<Rightarrow> mpd_client \<Rightarrow> (string \<times> track_value) list \<Rightarrow> (py_error + unit) \<times> mpd_client" where
  "sync_all paths m [] = (Inr (), m)"
| "sync_all paths m (g # gs) =
     (case sync_playlist paths m g of
        (Inl e, m') \<Rightarrow> (Inl e, m')
      | (Inr u, m') \<Rightarrow> sync_all paths m' gs)"

text \<open>The calls that change what the server stores.\<close>

fun is_mutation :: "mpd_cmd \<Rightarrow> bool" where
  "is_mutation (Save n) = True"
| "is_mutation (PlaylistClear n) = True"
| "is_mutation (PlaylistAdd n x) = True"
| "is_mutation Listall = False"
| "is_mutation (Find e) = False"
| "is_mutation Config = False"
| "is_mutation (ListPlaylist n) = False"
| "is_mutation CommandListOkBegin = False"
| "is_mutation CommandListEnd = False"

section \<open>Properties\<close>

subsection \<open>The track catalog: properties\<close>

lemma idx_notin:
  "q \<notin> set ps \<Longrightarrow>
   map_of (fold (\<lambda>(i, p) d. AList.update p (int i) d) (enumerate k ps) d0) q = map_of d0 q"
  by (induction ps arbitrary: k d0) (auto simp: update_conv')

lemma idx_nth:
  "distinct ps \<Longrightarrow> i < length ps \<Longrightarrow>
   map_of (fold (\<lambda>(i, p) d. AList.update p (int i) d) (enumerate k ps) d0) (ps ! i)
     = Some (int (k + i))"
proof (induction ps arbitrary: k d0 i)
  case Nil
  then show ?case by simp
next
  case (Cons p ps)
  show ?case
  proof (cases i)
    case 0
    with Cons.prems show ?thesis by (simp add: idx_notin update_conv')
  next
    case (Suc j)
    with Cons.prems Cons.IH [of j "Suc k"] show ?thesis by simp
  qed
qed

lemma map_path_to_idx_nth:
  "distinct ps \<Longrightarrow> i < length ps \<Longrightarrow> map_of (map_path_to_idx ps) (ps ! i) = Some (int i)"
  using idx_nth [of ps i 0 "[]"] by (simp add: map_path_to_idx_def)

lemma map_path_to_idx_notin:
  "q \<notin> set ps \<Longrightarrow> map_of (map_path_to_idx ps) q = None"
  using idx_notin [of q ps 0 "[]"] by (simp add: map_path_to_idx_def)

lemma all_track_paths_set:
  "set (all_track_paths objs) = Path ` set (List.map_filter file_of objs)"
  by (simp add: all_track_paths_def)

lemma all_track_paths_distinct:
  "distinct (all_track_paths objs) = distinct (map Path (List.map_filter file_of objs))"
  by (simp add: all_track_paths_def)

text \<open>
  Claim C9, as the code has it. The track paths of one cycle are pairwise different
  paths (a set of paths). The catalog lists each of them once, in strictly increasing
  order of \<^verbatim>\<open>pathlib.Path\<close>, which compares the sequences of path components and not
  the path strings; the path at position \<open>i\<close> of that order has Track Index \<open>i\<close>, no
  other path has an index, and \<open>all_tracks\<close> is the set of the integers from \<open>0\<close> up
  to, and without, the number of tracks.
\<close>

theorem track_index_is_position_in_path_order:
  assumes "distinct (map Path (List.map_filter file_of objs))"
  shows "set (all_track_paths objs) = Path ` set (List.map_filter file_of objs)
    \<and> length (all_track_paths objs) = length (List.map_filter file_of objs)
    \<and> sorted_wrt (<) (all_track_paths objs)
    \<and> (\<forall>i < length (all_track_paths objs).
          map_of (map_path_to_idx (all_track_paths objs)) (all_track_paths objs ! i)
            = Some (int i))
    \<and> dom (map_of (map_path_to_idx (all_track_paths objs))) = set (all_track_paths objs)
    \<and> fset (all_tracks (all_track_paths objs))
          = {i. 0 \<le> i \<and> i < int (length (all_track_paths objs))}"
proof -
  let ?ps = "all_track_paths objs"
  have d: "distinct ?ps"
    using assms by (simp add: all_track_paths_distinct)
  have s: "sorted_wrt (<) ?ps"
    using d by (simp add: all_track_paths_def strict_sorted_iff)
  have n: "\<forall>i < length ?ps. map_of (map_path_to_idx ?ps) (?ps ! i) = Some (int i)"
    using d by (simp add: map_path_to_idx_nth)
  have "dom (map_of (map_path_to_idx ?ps)) = set ?ps"
  proof
    show "dom (map_of (map_path_to_idx ?ps)) \<subseteq> set ?ps"
    proof
      fix q assume "q \<in> dom (map_of (map_path_to_idx ?ps))"
      then show "q \<in> set ?ps"
        using map_path_to_idx_notin [of q ?ps] by (cases "q \<in> set ?ps") auto
    qed
    show "set ?ps \<subseteq> dom (map_of (map_path_to_idx ?ps))"
    proof
      fix q assume "q \<in> set ?ps"
      then obtain i where "i < length ?ps" "?ps ! i = q"
        by (auto simp: in_set_conv_nth)
      with n show "q \<in> dom (map_of (map_path_to_idx ?ps))"
        by auto
    qed
  qed
  moreover have "fset (all_tracks ?ps) = {i. 0 \<le> i \<and> i < int (length ?ps)}"
  proof -
    have "int ` {0 ..< length ?ps} = {i. 0 \<le> i \<and> i < int (length ?ps)}"
    proof (rule set_eqI)
      fix i :: int
      have "i \<in> int ` {0 ..< length ?ps} \<longleftrightarrow> (\<exists>k. k < length ?ps \<and> i = int k)"
        by auto
      also have "\<dots> \<longleftrightarrow> 0 \<le> i \<and> i < int (length ?ps)"
      proof
        assume "\<exists>k. k < length ?ps \<and> i = int k"
        then show "0 \<le> i \<and> i < int (length ?ps)" by auto
      next
        assume a: "0 \<le> i \<and> i < int (length ?ps)"
        then have "nat i < length ?ps \<and> i = int (nat i)" by (simp add: nat_less_iff)
        then show "\<exists>k. k < length ?ps \<and> i = int k" by blast
      qed
      finally show "i \<in> int ` {0 ..< length ?ps} \<longleftrightarrow> i \<in> {i. 0 \<le> i \<and> i < int (length ?ps)}"
        by simp
    qed
    then show ?thesis
      by (simp add: all_tracks_def fset_of_list.rep_eq)
  qed
  ultimately show ?thesis
    using s n by (simp add: all_track_paths_set) (simp add: all_track_paths_def)
qed

theorem track_index_is_position_in_path_order_witness:
  "distinct (map Path (List.map_filter file_of
      [File ''b/3.mp3'', Directory ''a'', File ''a/2.mp3'', File ''a/1.mp3'']))
   \<and> all_track_paths [File ''b/3.mp3'', Directory ''a'', File ''a/2.mp3'', File ''a/1.mp3'']
       = [Path ''a/1.mp3'', Path ''a/2.mp3'', Path ''b/3.mp3'']
   \<and> map_of (map_path_to_idx (all_track_paths
        [File ''b/3.mp3'', Directory ''a'', File ''a/2.mp3'', File ''a/1.mp3'']))
        (Path ''b/3.mp3'') = Some 2
   \<and> fset (all_tracks (all_track_paths
        [File ''b/3.mp3'', Directory ''a'', File ''a/2.mp3'', File ''a/1.mp3'']))
       = {i. 0 \<le> i \<and> i < 3}"
proof -
  let ?objs = "[File ''b/3.mp3'', Directory ''a'', File ''a/2.mp3'', File ''a/1.mp3'']"
  have h: "distinct (map Path (List.map_filter file_of ?objs))"
    by code_simp
  have ps: "all_track_paths ?objs = [Path ''a/1.mp3'', Path ''a/2.mp3'', Path ''b/3.mp3'']"
    by code_simp
  note t = track_index_is_position_in_path_order [OF h]
  from t have a: "\<forall>i < length (all_track_paths ?objs).
      map_of (map_path_to_idx (all_track_paths ?objs)) (all_track_paths ?objs ! i) = Some (int i)"
    by blast
  have "2 < length (all_track_paths ?objs)"
    by (simp add: ps)
  with a have "map_of (map_path_to_idx (all_track_paths ?objs)) (all_track_paths ?objs ! 2)
      = Some (int 2)"
    by blast
  then have i: "map_of (map_path_to_idx (all_track_paths ?objs)) (Path ''b/3.mp3'') = Some 2"
    by (simp add: ps)
  from t have "fset (all_tracks (all_track_paths ?objs))
      = {i. 0 \<le> i \<and> i < int (length (all_track_paths ?objs))}"
    by blast
  then have "fset (all_tracks (all_track_paths ?objs)) = {i. 0 \<le> i \<and> i < 3}"
    by (simp add: ps)
  with i h ps show ?thesis
    by blast
qed

text \<open>
  Claim C9 as stated orders the paths as path strings. With the tracks \<^verbatim>\<open>a-1\<close> and
  \<^verbatim>\<open>a/1\<close> the string \<^verbatim>\<open>a-1\<close> is the smaller one (\<^verbatim>\<open>-\<close> precedes \<^verbatim>\<open>/\<close>), while the
  code gives index \<open>0\<close> to \<^verbatim>\<open>a/1\<close> and index \<open>1\<close> to \<^verbatim>\<open>a-1\<close>: as a path, \<^verbatim>\<open>a/1\<close> starts
  with the component \<^verbatim>\<open>a\<close>, a proper prefix of \<^verbatim>\<open>a-1\<close>.
\<close>

theorem track_index_not_string_order:
  "sort [''a-1'', ''a/1''] = [''a-1'', ''a/1'']
   \<and> map str_path (all_track_paths [File ''a-1'', File ''a/1'']) = [''a/1'', ''a-1'']
   \<and> map_of (map_path_to_idx (all_track_paths [File ''a-1'', File ''a/1''])) (Path ''a-1'')
       = Some 1
   \<and> map_of (map_path_to_idx (all_track_paths [File ''a-1'', File ''a/1''])) (Path ''a/1'')
       = Some 0"
  by code_simp

subsection \<open>PlaylistAccessor: properties\<close>

lemma playlist_getitem_frozen:
  "frozen_keys (snd (playlist_getitem p2i st n)) = insert n (frozen_keys st)"
  by (simp add: playlist_getitem_def split: prod.splits)

lemma playlist_getattr_frozen:
  "frozen_keys (snd (playlist_getattr p2i st n)) = insert n (frozen_keys st)"
proof (cases "playlist_getitem p2i st n")
  case (Pair r s)
  with playlist_getitem_frozen [of p2i st n] show ?thesis
    by (cases r) (simp_all add: playlist_getattr_def db_getattr_def)
qed

lemma playlist_setitem_frozen:
  "frozen_keys (snd (playlist_setitem st n v)) = frozen_keys st"
  by (simp add: playlist_setitem_def)

lemma pl_step_frozen:
  "frozen_keys (snd (pl_step p2i st op)) = frozen_keys st \<union> set_option (read_name op)"
  by (cases op)
    (simp_all add: playlist_getitem_frozen playlist_getattr_frozen playlist_setitem_frozen
      split_beta)

lemma pl_exec_frozen:
  "frozen_keys (pl_exec p2i st ops) = frozen_keys st \<union> set (List.map_filter read_name ops)"
proof (induction ops arbitrary: st)
  case Nil
  show ?case by (simp add: pl_exec_def)
next
  case (Cons op ops)
  have "pl_exec p2i st (op # ops) = pl_exec p2i (snd (pl_step p2i st op)) ops"
    by (simp add: pl_exec_def)
  then show ?case
    using Cons.IH [of "snd (pl_step p2i st op)"]
    by (cases "read_name op") (auto simp: pl_step_frozen)
qed

text \<open>
  Claim C1. In a cycle, that is after any sequence \<open>ops\<close> of accessor operations on an
  accessor \<open>st\<close>, the frozen names are those frozen in \<open>st\<close> and those read in \<open>ops\<close>: a
  read (in either form) freezes its name whatever it returns or raises, and no operation
  unfreezes a name. A write \<^verbatim>\<open>playlist[n] = v\<close> issued next raises the Conflict error
  (\<^verbatim>\<open>KeyError\<close> with the \<^verbatim>\<open>Cannot modify playlist\<close> message) when \<open>n\<close> is frozen, and
  succeeds otherwise, however many writes of \<open>n\<close> came before. A new accessor has no
  frozen name.
\<close>

theorem write_fails_exactly_after_read:
  "frozen_keys (new_playlist_accessor m) = {}
   \<and> frozen_keys (snd (playlist_getitem p2i st n)) = insert n (frozen_keys st)
   \<and> frozen_keys (snd (playlist_getattr p2i st n)) = insert n (frozen_keys st)
   \<and> frozen_keys (pl_exec p2i st ops) = frozen_keys st \<union> set (List.map_filter read_name ops)
   \<and> fst (pl_step p2i (pl_exec p2i st ops) (Setitem n v))
       = (if n \<in> frozen_keys st \<union> set (List.map_filter read_name ops)
          then Inl (KeyError [Msg (cannot_modify n)]) else Inr None)"
proof -
  have "fst (pl_step p2i (pl_exec p2i st ops) (Setitem n v))
       = (if n \<in> frozen_keys (pl_exec p2i st ops)
          then Inl (KeyError [Msg (cannot_modify n)]) else Inr None)"
    by (simp add: playlist_setitem_def)
  then show ?thesis
    by (simp add: pl_exec_frozen playlist_getitem_frozen playlist_getattr_frozen
        new_playlist_accessor_def)
qed

text \<open>
  Claim C4. A read of \<open>n\<close> (in either form, successful or not) followed by a write of
  \<open>v\<close> to \<open>n\<close> raises the Conflict error, and the failed write leaves the accessor as
  the read left it: the cached value of \<open>n\<close>, the generated-playlists mapping and the
  client are unchanged.
\<close>

theorem write_after_read_conflicts:
  "playlist_setitem (snd (playlist_getitem p2i st n)) n v
     = (Inl (KeyError [Msg (cannot_modify n)]), snd (playlist_getitem p2i st n))
   \<and> playlist_setitem (snd (playlist_getattr p2i st n)) n v
     = (Inl (KeyError [Msg (cannot_modify n)]), snd (playlist_getattr p2i st n))
   \<and> cache (snd (playlist_setitem (snd (playlist_getitem p2i st n)) n v)) n
     = cache (snd (playlist_getitem p2i st n)) n
   \<and> generated_playlists (snd (playlist_setitem (snd (playlist_getitem p2i st n)) n v))
     = generated_playlists st"
proof -
  have a: "playlist_setitem (snd (playlist_getitem p2i st n)) n v
     = (Inl (KeyError [Msg (cannot_modify n)]), snd (playlist_getitem p2i st n))"
    by (simp add: playlist_setitem_def playlist_getitem_frozen)
  have b: "playlist_setitem (snd (playlist_getattr p2i st n)) n v
     = (Inl (KeyError [Msg (cannot_modify n)]), snd (playlist_getattr p2i st n))"
    by (simp add: playlist_setitem_def playlist_getattr_frozen)
  have c: "generated_playlists (snd (playlist_getitem p2i st n)) = generated_playlists st"
    by (simp add: playlist_getitem_def split: prod.splits)
  show ?thesis
    by (simp add: a b c)
qed

text \<open>
  Claim C5. For a name \<open>n\<close> that has not been read (is not frozen), writing \<open>v\<close> to
  \<open>n\<close> succeeds, and reading \<open>n\<close> next returns \<open>v\<close> and leaves the client as it was:
  the read adds no call to the client's log, so it performs no remote query.
\<close>

theorem read_after_write_returns_written:
  assumes "n \<notin> frozen_keys st"
  shows "fst (playlist_setitem st n v) = Inr ()
    \<and> fst (playlist_getitem p2i (snd (playlist_setitem st n v)) n) = Inr v
    \<and> mpd (snd (playlist_getitem p2i (snd (playlist_setitem st n v)) n)) = mpd st
    \<and> calls (mpd (snd (playlist_getitem p2i (snd (playlist_setitem st n v)) n)))
        = calls (mpd st)"
  using assms by (simp add: playlist_setitem_def playlist_getitem_def db_getitem_def)

theorem read_after_write_returns_written_witness:
  "''mix'' \<notin> frozen_keys (new_playlist_accessor example_client)
   \<and> fst (playlist_getitem example_p2i
        (snd (playlist_setitem (new_playlist_accessor example_client) ''mix'' (TrackSeq [2, 0])))
        ''mix'')
       = Inr (TrackSeq [2, 0])
   \<and> calls (mpd (snd (playlist_getitem example_p2i
        (snd (playlist_setitem (new_playlist_accessor example_client) ''mix'' (TrackSeq [2, 0])))
        ''mix'')))
       = []"
proof -
  have h: "''mix'' \<notin> frozen_keys (new_playlist_accessor example_client)"
    by (simp add: new_playlist_accessor_def)
  have "calls (mpd (new_playlist_accessor example_client)) = []"
    by (simp add: new_playlist_accessor_def example_client_def)
  with read_after_write_returns_written [OF h, of "TrackSeq [2, 0]" example_p2i] h
  show ?thesis by simp
qed

subsection \<open>GenreAccessor and LabelAccessor: properties\<close>

lemma register_step:
  "set (dd_get (register i a r) q) = set (dd_get r q) \<union> (if q = a then {i} else {})"
  by (cases "q = a") (simp_all add: register_def dd_get_def)

lemma under_image_Cons:
  "snd ` {x \<in> set ((p, i) # items). q \<in> set (fst x # parents (fst x))}
      = (if q \<in> set (p # parents p) then {i} else {})
          \<union> snd ` {x \<in> set items. q \<in> set (fst x # parents (fst x))}"
proof -
  have "{x \<in> set ((p, i) # items). q \<in> set (fst x # parents (fst x))}
      = (if q \<in> set (p # parents p) then {(p, i)} else {})
          \<union> {x \<in> set items. q \<in> set (fst x # parents (fst x))}"
    by auto
  then show ?thesis
    by (simp only: image_Un) simp
qed

lemma register_set:
  "set (dd_get (fold (register i) qs r) q)
     = set (dd_get r q) \<union> (if q \<in> set qs then {i} else {})"
proof (induction qs arbitrary: r)
  case Nil
  show ?case by simp
next
  case (Cons a qs)
  have "fold (register i) (a # qs) r = fold (register i) qs (register i a r)"
    by simp
  then show ?case
    using Cons.IH [of "register i a r"] register_step [of i a r q] by auto
qed

lemma register_nonempty:
  "(\<forall>q. r q \<noteq> Some []) \<Longrightarrow> fold (register i) qs r q \<noteq> Some []"
proof (induction qs arbitrary: r)
  case Nil
  then show ?case by simp
next
  case (Cons a qs)
  have "\<forall>q. register i a r q \<noteq> Some []"
    using Cons.prems by (simp add: register_def)
  then show ?case
    using Cons.IH [of "register i a r"] by simp
qed

lemma register_tracks_Cons:
  "register_tracks ((p, i) # items) r
     = register_tracks items (fold (register i) (p # parents p) r)"
  by (simp add: register_tracks_def)

lemma register_tracks_set:
  assumes "\<forall>q. r q \<noteq> Some []"
  shows "(\<forall>q. register_tracks items r q \<noteq> Some [])
    \<and> set (dd_get (register_tracks items r) q)
        = set (dd_get r q) \<union> snd ` {x \<in> set items. q \<in> set (fst x # parents (fst x))}"
  using assms
proof (induction items arbitrary: r)
  case Nil
  then show ?case by (simp add: register_tracks_def)
next
  case (Cons a items)
  obtain p i where a: "a = (p, i)" by (cases a)
  let ?r = "fold (register i) (p # parents p) r"
  have ne: "\<forall>q. ?r q \<noteq> Some []"
    using register_nonempty [OF Cons.prems] by blast
  from Cons.IH [OF ne]
  have ih1: "\<forall>q. register_tracks items ?r q \<noteq> Some []"
    and ih2: "set (dd_get (register_tracks items ?r) q)
        = set (dd_get ?r q) \<union> snd ` {x \<in> set items. q \<in> set (fst x # parents (fst x))}"
    by blast+
  have g: "set (dd_get ?r q)
      = set (dd_get r q) \<union> (if q \<in> set (p # parents p) then {i} else {})"
    by (rule register_set)
  have c2: "set (dd_get (register_tracks (a # items) r) q)
        = set (dd_get r q) \<union> snd ` {x \<in> set (a # items). q \<in> set (fst x # parents (fst x))}"
    unfolding a register_tracks_Cons ih2 g under_image_Cons by (simp only: Un_assoc)
  have c1: "\<forall>q. register_tracks (a # items) r q \<noteq> Some []"
    unfolding a register_tracks_Cons by (rule ih1)
  from c1 c2 show ?case by blast
qed

lemma all_tracks_by_path_eq:
  "all_tracks_by_path items q
     = (if tracks_under items q = {||} then None else Some (tracks_under items q))"
proof -
  let ?f = "register_tracks items Map.empty"
  have n: "?f q \<noteq> Some []"
    and s: "set (dd_get ?f q) = snd ` {x \<in> set items. q \<in> set (fst x # parents (fst x))}"
    using register_tracks_set [of Map.empty items q] by (simp_all add: dd_get_def)
  have t: "fset (tracks_under items q) = snd ` {x \<in> set items. q \<in> set (fst x # parents (fst x))}"
    by (auto simp: tracks_under_def fset_of_list.rep_eq split_beta)
  show ?thesis
  proof (cases "?f q")
    case None
    with s t have "fset (tracks_under items q) = {}" by (simp add: dd_get_def)
    then have "tracks_under items q = {||}" by (metis bot_fset.rep_eq fset_inject)
    with None show ?thesis by (simp add: all_tracks_by_path_def)
  next
    case (Some l)
    with n have "l \<noteq> []" by simp
    from Some s t have "fset (fset_of_list l) = fset (tracks_under items q)"
      by (simp add: fset_of_list.rep_eq dd_get_def)
    then have e: "fset_of_list l = tracks_under items q" by (simp add: fset_inject)
    from \<open>l \<noteq> []\<close> have "fset_of_list l \<noteq> {||}" by (cases l) auto
    with e Some show ?thesis by (simp add: all_tracks_by_path_def)
  qed
qed

lemma genre_getitem_inv:
  assumes "find_db (snd s) = F"
    and "\<forall>n v. fst s n = Some v \<longrightarrow>
           v = fset_of_list (List.map_filter (\<lambda>x. map_of p2i (Path x)) (F (genre_expr n)))"
  shows "find_db (snd (snd (genre_getitem p2i s g))) = F
    \<and> (\<forall>n v. fst (snd (genre_getitem p2i s g)) n = Some v \<longrightarrow>
           v = fset_of_list (List.map_filter (\<lambda>x. map_of p2i (Path x)) (F (genre_expr n))))
    \<and> fst (genre_getitem p2i s g)
        = Inr (fset_of_list (List.map_filter (\<lambda>x. map_of p2i (Path x)) (F (genre_expr g))))"
proof (cases s)
  case (Pair c m)
  show ?thesis
  proof (cases "c g")
    case None
    with Pair assms show ?thesis
      by (simp add: genre_getitem_def db_getitem_def genre_lookup_def mpd_find_def)
  next
    case (Some v)
    with Pair assms show ?thesis
      by (simp add: genre_getitem_def db_getitem_def)
  qed
qed

lemma genre_exec_inv:
  assumes "find_db (snd s) = F"
    and "\<forall>n v. fst s n = Some v \<longrightarrow>
           v = fset_of_list (List.map_filter (\<lambda>x. map_of p2i (Path x)) (F (genre_expr n)))"
  shows "find_db (snd (genre_exec p2i s names)) = F
    \<and> (\<forall>n v. fst (genre_exec p2i s names) n = Some v \<longrightarrow>
           v = fset_of_list (List.map_filter (\<lambda>x. map_of p2i (Path x)) (F (genre_expr n))))"
  using assms
proof (induction names arbitrary: s)
  case Nil
  then show ?case by (simp add: genre_exec_def)
next
  case (Cons g names)
  have e: "genre_exec p2i s (g # names) = genre_exec p2i (snd (genre_getitem p2i s g)) names"
    by (simp add: genre_exec_def)
  from genre_getitem_inv [OF Cons.prems, of g]
  show ?case
    unfolding e by (intro Cons.IH) blast+
qed

lemma genre_getitem_total: "\<exists>v. fst (genre_getitem p2i s g) = Inr v"
  by (cases s)
    (simp add: genre_getitem_def db_getitem_def genre_lookup_def mpd_find_def
      split: option.splits)

lemma label_lookup_none:
  assumes "tree (Path (music_directory m)) (label_file_name l) = []"
  shows "label_lookup tree p2i m l
    = (Inl (LookupError [Msg (''No file found named '' @ label_file_name l)]),
       m\<lparr>calls := calls m @ [Config]\<rparr>)"
  using assms by (simp add: label_lookup_def config_def)

lemma label_lookup_client:
  "music_directory (snd (label_lookup tree p2i m l)) = music_directory m"
  by (simp add: label_lookup_def config_def Let_def split: sum.splits)

lemma label_lookup_found:
  "fst (label_lookup tree p2i m l) = Inr v
     \<Longrightarrow> tree (Path (music_directory m)) (label_file_name l) \<noteq> []"
  by (auto simp: label_lookup_def config_def Let_def split: sum.splits if_splits)

lemma label_getitem_inv:
  assumes "music_directory (snd s) = R"
    and "\<forall>n v. fst s n = Some v \<longrightarrow> tree (Path R) (label_file_name n) \<noteq> []"
  shows "music_directory (snd (snd (label_getitem tree p2i s l))) = R
    \<and> (\<forall>n v. fst (snd (label_getitem tree p2i s l)) n = Some v
          \<longrightarrow> tree (Path R) (label_file_name n) \<noteq> [])"
proof (cases s)
  case (Pair c m)
  show ?thesis
  proof (cases "c l")
    case (Some v)
    with Pair assms show ?thesis
      by (simp add: label_getitem_def db_getitem_def)
  next
    case None
    obtain r m' where lk: "label_lookup tree p2i m l = (r, m')"
      by (cases "label_lookup tree p2i m l")
    have md: "music_directory m' = R"
      using label_lookup_client [of tree p2i m l] lk Pair assms(1) by simp
    show ?thesis
    proof (cases r)
      case (Inl e)
      with None Pair assms lk md show ?thesis
        by (simp add: label_getitem_def db_getitem_def)
    next
      case (Inr v)
      have "tree (Path R) (label_file_name l) \<noteq> []"
        using label_lookup_found [of tree p2i m l v] lk Inr Pair assms(1) by simp
      with Inr None Pair assms lk md show ?thesis
        by (simp add: label_getitem_def db_getitem_def)
    qed
  qed
qed

lemma label_exec_inv:
  assumes "music_directory (snd s) = R"
    and "\<forall>n v. fst s n = Some v \<longrightarrow> tree (Path R) (label_file_name n) \<noteq> []"
  shows "music_directory (snd (label_exec tree p2i s names)) = R
    \<and> (\<forall>n v. fst (label_exec tree p2i s names) n = Some v
          \<longrightarrow> tree (Path R) (label_file_name n) \<noteq> [])"
  using assms
proof (induction names arbitrary: s)
  case Nil
  then show ?case by (simp add: label_exec_def)
next
  case (Cons l names)
  have e: "label_exec tree p2i s (l # names)
      = label_exec tree p2i (snd (label_getitem tree p2i s l)) names"
    by (simp add: label_exec_def)
  from Cons.prems
  have "music_directory (snd (snd (label_getitem tree p2i s l))) = R
    \<and> (\<forall>n v. fst (snd (label_getitem tree p2i s l)) n = Some v
          \<longrightarrow> tree (Path R) (label_file_name n) \<noteq> [])"
    by (rule label_getitem_inv)
  then show ?case
    unfolding e by (intro Cons.IH) blast+
qed

lemma label_getitem_not_found:
  assumes "tree (Path (music_directory (snd s))) (label_file_name l) = []"
    and "\<forall>n v. fst s n = Some v
           \<longrightarrow> tree (Path (music_directory (snd s))) (label_file_name n) \<noteq> []"
  shows "fst (label_getitem tree p2i s l)
    = Inl (IndexError [Msg (''No file found named '' @ label_file_name l)])"
proof (cases s)
  case (Pair c m)
  with assms have "c l = None"
    by (cases "c l") auto
  with Pair assms(1) show ?thesis
    by (simp add: label_getitem_def db_getitem_def label_lookup_none)
qed

text \<open>
  Whatever the search is: a genre lookup never raises and returns the empty set when the
  tag search returns no song, and a label lookup raises the NotFound error when the
  search yields no file (in either form, after any earlier lookups of the cycle).
\<close>

lemma unmatched_genre_and_empty_search:
  "(\<exists>v. fst (genre_getitem p2i s g) = Inr v)
   \<and> (find_db m (genre_expr g) = [] \<longrightarrow>
        fst (genre_getitem p2i (genre_exec p2i (Map.empty, m) names) g) = Inr {||}
        \<and> fst (genre_getattr p2i (genre_exec p2i (Map.empty, m) names) g) = Inr {||})
   \<and> (tree (Path (music_directory m)) (label_file_name l) = [] \<longrightarrow>
        fst (label_getitem tree p2i (label_exec tree p2i (Map.empty, m) names') l)
          = Inl (IndexError [Msg (''No file found named '' @ label_file_name l)])
        \<and> fst (label_getattr tree p2i (label_exec tree p2i (Map.empty, m) names') l)
          = Inl (AttributeError [Msg (''No file found named '' @ label_file_name l)]))"
proof (intro conjI impI)
  show "\<exists>v. fst (genre_getitem p2i s g) = Inr v"
    by (rule genre_getitem_total)
next
  assume a: "find_db m (genre_expr g) = []"
  let ?s = "genre_exec p2i (Map.empty, m) names"
  have "find_db (snd ?s) = find_db m
    \<and> (\<forall>n v. fst ?s n = Some v \<longrightarrow>
           v = fset_of_list (List.map_filter (\<lambda>x. map_of p2i (Path x)) (find_db m (genre_expr n))))"
    by (rule genre_exec_inv) simp_all
  then have "fst (genre_getitem p2i ?s g)
      = Inr (fset_of_list (List.map_filter (\<lambda>x. map_of p2i (Path x)) (find_db m (genre_expr g))))"
    using genre_getitem_inv [of ?s "find_db m" p2i g] by blast
  with a show r: "fst (genre_getitem p2i ?s g) = Inr {||}"
    by simp
  then show "fst (genre_getattr p2i ?s g) = Inr {||}"
    by (cases "genre_getitem p2i ?s g") (simp add: genre_getattr_def db_getattr_def)
next
  assume a: "tree (Path (music_directory m)) (label_file_name l) = []"
  let ?s = "label_exec tree p2i (Map.empty, m) names'"
  have inv: "music_directory (snd ?s) = music_directory m
    \<and> (\<forall>n v. fst ?s n = Some v
          \<longrightarrow> tree (Path (music_directory m)) (label_file_name n) \<noteq> [])"
    by (rule label_exec_inv) simp_all
  with a show r: "fst (label_getitem tree p2i ?s l)
      = Inl (IndexError [Msg (''No file found named '' @ label_file_name l)])"
    using label_getitem_not_found [of tree ?s l p2i] by simp
  then show "fst (label_getattr tree p2i ?s l)
      = Inl (AttributeError [Msg (''No file found named '' @ label_file_name l)])"
    by (cases "label_getitem tree p2i ?s l") (simp add: label_getattr_def db_getattr_def)
qed

lemma split_sep_no_slash: "CHR ''/'' \<notin> set s \<Longrightarrow> split_sep s = [s]"
  by (induction s) auto

lemma Path_single:
  "CHR ''/'' \<notin> set s \<Longrightarrow> s \<noteq> [] \<Longrightarrow> s \<noteq> ''.'' \<Longrightarrow> Path s = [s]"
  by (cases s) (auto simp: Path_def split_sep_no_slash)

lemma has_double_star_star: "has_double_star p \<Longrightarrow> CHR ''*'' \<in> set p"
  by (induction p rule: has_double_star.induct) auto

lemma select_from_name:
  "p \<noteq> ''**'' \<Longrightarrow> \<not> is_wildcard_pattern p \<Longrightarrow>
   select_from [''**'', p] f \<longleftrightarrow> f \<noteq> [] \<and> last f = p"
proof (induction f)
  case Nil
  show ?case by simp
next
  case (Cons c cs)
  have one: "select_from [p] (c # cs) \<longleftrightarrow> c = p \<and> cs = []"
    using Cons.prems by auto
  have "select_from [''**'', p] (c # cs)
      \<longleftrightarrow> select_from [p] (c # cs) \<or> (cs \<noteq> [] \<and> select_from [''**'', p] cs)"
    by simp
  with one Cons.IH [OF Cons.prems] show ?case
    by auto
qed

lemma label_file_name_chars:
  "set (label_file_name l) = set l \<union> set ''.label.yml''"
  by (auto simp: label_file_name_def)

lemma rglob_literal_name:
  assumes "set l \<inter> {CHR ''*'', CHR ''?'', CHR ''['', CHR ''/''} = {}"
  shows "rglob files root (label_file_name l)
     = filter (\<lambda>(f, tag_file_content). f \<noteq> [] \<and> last f = label_file_name l) (files root)"
proof -
  let ?p = "label_file_name l"
  from assms have ns: "CHR ''/'' \<notin> set ?p" and nw: "\<not> is_wildcard_pattern ?p"
    and nst: "CHR ''*'' \<notin> set ?p"
    by (auto simp: label_file_name_chars is_wildcard_pattern_def)
  have ne: "?p \<noteq> []" "?p \<noteq> ''.''" "?p \<noteq> ''**''"
    by (simp_all add: label_file_name_def)
  have parts: "Path ?p = [?p]"
    using ns ne by (simp add: Path_single)
  have "\<not> has_double_star ?p"
    using nst has_double_star_star by blast
  then show ?thesis
    using select_from_name [OF ne(3) nw] by (simp add: rglob_def parts)
qed

text \<open>
  Claim C6 on the code. A genre lookup never raises, and returns the empty set when the
  tag search returns no song. For a label name without the characters \<^verbatim>\<open>*\<close>, \<^verbatim>\<open>?\<close>,
  \<^verbatim>\<open>[\<close> and \<^verbatim>\<open>/\<close>, the search yields the files named \<^verbatim>\<open>.label.<name>.yml\<close>, and when
  there is none the lookup raises the NotFound error (\<^verbatim>\<open>IndexError\<close> in the keyed form,
  \<^verbatim>\<open>AttributeError\<close> in the attribute form). For the label name \<^verbatim>\<open>f*\<close> in a library
  whose only rule file is \<^verbatim>\<open>.label.foo.yml\<close>, no file is named \<^verbatim>\<open>.label.f*.yml\<close>, yet the
  name is matched as a pattern: the lookup finds the rule file of \<^verbatim>\<open>foo\<close> and returns
  its track set instead of raising NotFound.
\<close>

theorem label_name_matched_as_glob_pattern:
  "(\<exists>v. fst (genre_getitem p2i s g) = Inr v)
   \<and> (find_db m (genre_expr g) = [] \<longrightarrow>
        fst (genre_getitem p2i (genre_exec p2i (Map.empty, m) names) g) = Inr {||}
        \<and> fst (genre_getattr p2i (genre_exec p2i (Map.empty, m) names) g) = Inr {||})
   \<and> (set l \<inter> {CHR ''*'', CHR ''?'', CHR ''['', CHR ''/''} = {}
        \<and> label_file_name l \<notin> (last \<circ> fst) ` set (files (Path (music_directory m))) \<longrightarrow>
        fst (label_getitem (rglob files) p2i
               (label_exec (rglob files) p2i (Map.empty, m) names') l)
          = Inl (IndexError [Msg (''No file found named '' @ label_file_name l)])
        \<and> fst (label_getattr (rglob files) p2i
               (label_exec (rglob files) p2i (Map.empty, m) names') l)
          = Inl (AttributeError [Msg (''No file found named '' @ label_file_name l)]))
   \<and> label_file_name ''f*''
        \<notin> (last \<circ> fst) ` set (foo_only_files (Path (music_directory example_client)))
   \<and> fst (label_getitem (rglob foo_only_files) example_p2i (Map.empty, example_client) ''f*'')
        = Inr {|2|}
   \<and> fst (label_getitem (rglob foo_only_files) example_p2i (Map.empty, example_client) ''foo'')
        = Inr {|2|}"
proof -
  note base = unmatched_genre_and_empty_search
    [where p2i = p2i and s = s and g = g and m = m and names = names and l = l
       and names' = names' and tree = "rglob files"]
  have lit: "set l \<inter> {CHR ''*'', CHR ''?'', CHR ''['', CHR ''/''} = {}
        \<and> label_file_name l \<notin> (last \<circ> fst) ` set (files (Path (music_directory m)))
      \<longrightarrow> rglob files (Path (music_directory m)) (label_file_name l) = []"
  proof
    assume a: "set l \<inter> {CHR ''*'', CHR ''?'', CHR ''['', CHR ''/''} = {}
        \<and> label_file_name l \<notin> (last \<circ> fst) ` set (files (Path (music_directory m)))"
    then have "\<forall>x \<in> set (files (Path (music_directory m))). last (fst x) \<noteq> label_file_name l"
      by force
    then have "filter (\<lambda>(f, tag_file_content). f \<noteq> [] \<and> last f = label_file_name l)
        (files (Path (music_directory m))) = []"
      by (auto simp: filter_empty_conv)
    with a show "rglob files (Path (music_directory m)) (label_file_name l) = []"
      by (simp add: rglob_literal_name)
  qed
  have e1: "label_file_name ''f*''
        \<notin> (last \<circ> fst) ` set (foo_only_files (Path (music_directory example_client)))"
    by (simp add: foo_only_files_def label_file_name_def)
  have e2: "fst (label_getitem (rglob foo_only_files) example_p2i (Map.empty, example_client)
        ''f*'') = Inr {|2|}"
    by code_simp
  have e3: "fst (label_getitem (rglob foo_only_files) example_p2i (Map.empty, example_client)
        ''foo'') = Inr {|2|}"
    by code_simp
  from base lit e1 e2 e3 show ?thesis
    by blast
qed

theorem label_name_matched_as_glob_pattern_witness:
  "find_db example_client (genre_expr ''Jazz'') = []
   \<and> fst (genre_getitem example_p2i
        (genre_exec example_p2i (Map.empty, example_client) [''Rock'', ''Jazz'']) ''Jazz'')
       = Inr {||}
   \<and> set ''nope'' \<inter> {CHR ''*'', CHR ''?'', CHR ''['', CHR ''/''} = {}
   \<and> label_file_name ''nope''
        \<notin> (last \<circ> fst) ` set (example_files (Path (music_directory example_client)))
   \<and> fst (label_getitem (rglob example_files) example_p2i
        (label_exec (rglob example_files) example_p2i (Map.empty, example_client)
           [''foo'', ''nope''])
        ''nope'')
       = Inl (IndexError [Msg (''No file found named '' @ label_file_name ''nope'')])"
proof -
  have h1: "find_db example_client (genre_expr ''Jazz'') = []"
    by (simp add: example_client_def genre_expr_def)
  have h2: "set ''nope'' \<inter> {CHR ''*'', CHR ''?'', CHR ''['', CHR ''/''} = {}"
    by simp
  have h3: "label_file_name ''nope''
        \<notin> (last \<circ> fst) ` set (example_files (Path (music_directory example_client)))"
    by (simp add: example_files_def label_file_name_def)
  from label_name_matched_as_glob_pattern
    [where m = example_client and g = "''Jazz''" and l = "''nope''" and files = example_files
       and p2i = example_p2i and names = "[''Rock'', ''Jazz'']" and names' = "[''foo'', ''nope'']"]
    h1 h2 h3
  show ?thesis by blast
qed

text \<open>
  Claim C8 on the code. A rule file with more than one top-level key fails the
  \<^verbatim>\<open>assert\<close>: the lookup raises \<^verbatim>\<open>AssertionError\<close> in both forms. A rule file that is an
  empty mapping has zero top-level keys: \<^verbatim>\<open>popitem\<close> raises \<^verbatim>\<open>KeyError\<close>, which is a
  \<^verbatim>\<open>LookupError\<close>, so \<^verbatim>\<open>DbAccessor.__getitem__\<close> converts it to \<^verbatim>\<open>IndexError\<close> (and
  \<^verbatim>\<open>__getattr__\<close> to \<^verbatim>\<open>AttributeError\<close>), the exception classes of the NotFound error
  of a label without rule file.
\<close>

theorem empty_rule_file_raises_not_found_class:
  assumes "c l = None"
  shows "(tree (Path (music_directory m)) (label_file_name l) = (tag_file, YamlDict []) # rest
       \<longrightarrow> fst (label_getitem tree p2i (c, m) l)
             = Inl (IndexError [Msg ''popitem(): dictionary is empty''])
         \<and> fst (label_getattr tree p2i (c, m) l)
             = Inl (AttributeError [Msg ''popitem(): dictionary is empty'']))
    \<and> (tree (Path (music_directory m)) (label_file_name l)
          = (tag_file, YamlDict (kv # kv' # kvs)) # rest
       \<longrightarrow> fst (label_getitem tree p2i (c, m) l) = Inl AssertionError
         \<and> fst (label_getattr tree p2i (c, m) l) = Inl AssertionError)
    \<and> (tree (Path (music_directory m)) (label_file_name l) = []
       \<longrightarrow> fst (label_getitem tree p2i (c, m) l)
             = Inl (IndexError [Msg (''No file found named '' @ label_file_name l)]))"
  using assms
  by (simp add: label_getitem_def label_getattr_def db_getattr_def db_getitem_def
      label_lookup_def config_def apply_tag_file_def split_beta)

theorem empty_rule_file_raises_not_found_class_witness:
  "example_tree (Path (music_directory example_client)) (label_file_name ''void'')
     = ([''.label.void.yml''], YamlDict []) # []
   \<and> fst (label_getitem example_tree example_p2i (Map.empty, example_client) ''void'')
       = Inl (IndexError [Msg ''popitem(): dictionary is empty''])
   \<and> example_tree (Path (music_directory example_client)) (label_file_name ''both'')
     = ([''.label.both.yml''], YamlDict ((''all_except'', None) # (''none_except'', None) # [])) # []
   \<and> fst (label_getitem example_tree example_p2i (Map.empty, example_client) ''both'')
       = Inl AssertionError"
proof -
  have h1: "example_tree (Path (music_directory example_client)) (label_file_name ''void'')
     = ([''.label.void.yml''], YamlDict []) # []"
    by code_simp
  have h2: "example_tree (Path (music_directory example_client)) (label_file_name ''both'')
     = ([''.label.both.yml''], YamlDict ((''all_except'', None) # (''none_except'', None) # [])) # []"
    by code_simp
  have n: "Map.empty ''void'' = (None :: int fset option)" "Map.empty ''both'' = (None :: int fset option)"
    by simp_all
  from empty_rule_file_raises_not_found_class [OF n(1), where tree = example_tree
      and m = example_client and tag_file = "[''.label.void.yml'']" and rest = "[]"
      and p2i = example_p2i] h1
  have a: "fst (label_getitem example_tree example_p2i (Map.empty, example_client) ''void'')
       = Inl (IndexError [Msg ''popitem(): dictionary is empty''])"
    by blast
  from empty_rule_file_raises_not_found_class [OF n(2), where tree = example_tree
      and m = example_client and tag_file = "[''.label.both.yml'']" and rest = "[]"
      and p2i = example_p2i and kv = "(''all_except'', None)" and kv' = "(''none_except'', None)"
      and kvs = "[]"] h2
  have b: "fst (label_getitem example_tree example_p2i (Map.empty, example_client) ''both'')
       = Inl AssertionError"
    by blast
  from a b h1 h2 show ?thesis by blast
qed

lemma label_getitem_single:
  assumes "tree (Path (music_directory m)) (label_file_name l) = [tf]"
    and "c l = None"
  shows "fst (label_getitem tree p2i (c, m) l)
      = (case apply_tag_file (all_tracks_by_path p2i) {||} tf of
           Inl e \<Rightarrow> Inl (if is_LookupError e then IndexError (args e) else e)
         | Inr r \<Rightarrow> Inr r)"
proof (cases "apply_tag_file (all_tracks_by_path p2i) {||} tf")
  case (Inl e)
  with assms show ?thesis
    by (simp add: label_getitem_def db_getitem_def label_lookup_def config_def)
next
  case (Inr r)
  with assms show ?thesis
    by (simp add: label_getitem_def db_getitem_def label_lookup_def config_def)
qed

lemma apply_all_except:
  "idx (butlast tag_file) = Some A \<Longrightarrow>
   apply_tag_file idx r (tag_file, YamlDict [(''all_except'', given)])
     = (case given of
          None \<Rightarrow> Inr (r |\<union>| A)
        | Some ps \<Rightarrow> remove_listed idx (butlast tag_file) ps (r |\<union>| A))"
  by (simp add: apply_tag_file_def)

lemma apply_none_except:
  "idx (butlast tag_file) = Some A \<Longrightarrow>
   apply_tag_file idx r (tag_file, YamlDict [(''none_except'', given)])
     = (case given of
          None \<Rightarrow> Inr (r |-| A)
        | Some ps \<Rightarrow> add_listed idx (butlast tag_file) ps (r |-| A))"
  by (simp add: apply_tag_file_def)

text \<open>
  Claim C2. The label search finds exactly one rule file, in directory \<open>D\<close> (the parent
  of \<open>tag_file\<close>), with the single pair \<open>(key, given)\<close>, and the label is not cached.
  With \<open>AncestorIndex[q]\<close> the entry of \<^verbatim>\<open>all_tracks_by_path\<close> at \<open>q\<close>, which is the set
  of the tracks at or under \<open>q\<close>: for \<^verbatim>\<open>all_except: [x, y]\<close> the lookup returns
  \<open>AncestorIndex[D] - AncestorIndex[D/x] - AncestorIndex[D/y]\<close>; for
  \<^verbatim>\<open>none_except: [x]\<close> it returns exactly \<open>AncestorIndex[D/x]\<close>; for a null list it
  returns \<open>AncestorIndex[D]\<close> for \<^verbatim>\<open>all_except\<close> and the empty set for \<^verbatim>\<open>none_except\<close>.
\<close>

theorem single_rule_file_resolution:
  assumes "tree (Path (music_directory m)) (label_file_name l)
             = [(tag_file, YamlDict [(key, given)])]"
    and "c l = None"
    and "all_tracks_by_path p2i (butlast tag_file) = Some A"
  shows "A = tracks_under p2i (butlast tag_file)
    \<and> (key = ''all_except'' \<and> given = Some [x, y]
         \<and> all_tracks_by_path p2i (joinpath (butlast tag_file) x) = Some B
         \<and> all_tracks_by_path p2i (joinpath (butlast tag_file) y) = Some C
       \<longrightarrow> fst (label_getitem tree p2i (c, m) l) = Inr (A |-| B |-| C)
         \<and> B = tracks_under p2i (joinpath (butlast tag_file) x)
         \<and> C = tracks_under p2i (joinpath (butlast tag_file) y))
    \<and> (key = ''none_except'' \<and> given = Some [x]
         \<and> all_tracks_by_path p2i (joinpath (butlast tag_file) x) = Some B
       \<longrightarrow> fst (label_getitem tree p2i (c, m) l) = Inr B
         \<and> B = tracks_under p2i (joinpath (butlast tag_file) x))
    \<and> (key = ''all_except'' \<and> given = None
       \<longrightarrow> fst (label_getitem tree p2i (c, m) l) = Inr A)
    \<and> (key = ''none_except'' \<and> given = None
       \<longrightarrow> fst (label_getitem tree p2i (c, m) l) = Inr {||})"
proof -
  let ?D = "butlast tag_file"
  have tu: "\<And>q S. all_tracks_by_path p2i q = Some S \<Longrightarrow> S = tracks_under p2i q"
    by (simp add: all_tracks_by_path_eq split: if_splits)
  have g: "fst (label_getitem tree p2i (c, m) l)
      = (case apply_tag_file (all_tracks_by_path p2i) {||} (tag_file, YamlDict [(key, given)]) of
           Inl e \<Rightarrow> Inl (if is_LookupError e then IndexError (args e) else e)
         | Inr r \<Rightarrow> Inr r)"
    using assms(1,2) by (rule label_getitem_single)
  have a1: "key = ''all_except'' \<and> given = Some [x, y]
         \<and> all_tracks_by_path p2i (joinpath ?D x) = Some B
         \<and> all_tracks_by_path p2i (joinpath ?D y) = Some C
       \<longrightarrow> fst (label_getitem tree p2i (c, m) l) = Inr (A |-| B |-| C)"
    by (simp add: g apply_all_except [where idx = "all_tracks_by_path p2i", OF assms(3)])
  have a2: "key = ''none_except'' \<and> given = Some [x]
         \<and> all_tracks_by_path p2i (joinpath ?D x) = Some B
       \<longrightarrow> fst (label_getitem tree p2i (c, m) l) = Inr B"
    by (simp add: g apply_none_except [where idx = "all_tracks_by_path p2i", OF assms(3)])
  have a3: "key = ''all_except'' \<and> given = None
       \<longrightarrow> fst (label_getitem tree p2i (c, m) l) = Inr A"
    by (simp add: g apply_all_except [where idx = "all_tracks_by_path p2i", OF assms(3)])
  have a4: "key = ''none_except'' \<and> given = None
       \<longrightarrow> fst (label_getitem tree p2i (c, m) l) = Inr {||}"
    by (simp add: g apply_none_except [where idx = "all_tracks_by_path p2i", OF assms(3)])
  have b1: "A = tracks_under p2i ?D"
    by (rule tu [OF assms(3)])
  have b2: "all_tracks_by_path p2i (joinpath ?D x) = Some B
       \<longrightarrow> B = tracks_under p2i (joinpath ?D x)"
    using tu by blast
  have b3: "all_tracks_by_path p2i (joinpath ?D y) = Some C
       \<longrightarrow> C = tracks_under p2i (joinpath ?D y)"
    using tu by blast
  show ?thesis
  proof (intro conjI impI)
    show "A = tracks_under p2i ?D" by (rule b1)
  next
    assume h: "key = ''all_except'' \<and> given = Some [x, y]
         \<and> all_tracks_by_path p2i (joinpath ?D x) = Some B
         \<and> all_tracks_by_path p2i (joinpath ?D y) = Some C"
    with a1 show "fst (label_getitem tree p2i (c, m) l) = Inr (A |-| B |-| C)" by (rule mp)
    from h b2 show "B = tracks_under p2i (joinpath ?D x)" by (elim conjE) (rule mp)
    from h b3 show "C = tracks_under p2i (joinpath ?D y)" by (elim conjE) (rule mp)
  next
    assume h: "key = ''none_except'' \<and> given = Some [x]
         \<and> all_tracks_by_path p2i (joinpath ?D x) = Some B"
    with a2 show "fst (label_getitem tree p2i (c, m) l) = Inr B" by (rule mp)
    from h b2 show "B = tracks_under p2i (joinpath ?D x)" by (elim conjE) (rule mp)
  next
    assume "key = ''all_except'' \<and> given = None"
    with a3 show "fst (label_getitem tree p2i (c, m) l) = Inr A" by (rule mp)
  next
    assume "key = ''none_except'' \<and> given = None"
    with a4 show "fst (label_getitem tree p2i (c, m) l) = Inr {||}" by (rule mp)
  qed
qed

theorem single_rule_file_resolution_witness:
  "example_tree (Path (music_directory example_client)) (label_file_name ''foo'')
     = [([''.label.foo.yml''], YamlDict [(''all_except'', Some [''a''])])]
   \<and> all_tracks_by_path example_p2i (butlast [''.label.foo.yml'']) = Some {|0, 1, 2|}
   \<and> example_tree (Path (music_directory example_client)) (label_file_name ''two'')
     = [([''a'', ''.label.two.yml''], YamlDict [(''none_except'', Some [''2.mp3''])])]
   \<and> all_tracks_by_path example_p2i (butlast [''a'', ''.label.two.yml'']) = Some {|0, 1|}
   \<and> all_tracks_by_path example_p2i (joinpath (butlast [''a'', ''.label.two.yml'']) ''2.mp3'')
       = Some {|1|}
   \<and> fst (label_getitem example_tree example_p2i (Map.empty, example_client) ''two'')
       = Inr {|1|}"
proof -
  have f: "example_tree (Path (music_directory example_client)) (label_file_name ''foo'')
     = [([''.label.foo.yml''], YamlDict [(''all_except'', Some [''a''])])]"
    by code_simp
  have t: "example_tree (Path (music_directory example_client)) (label_file_name ''two'')
     = [([''a'', ''.label.two.yml''], YamlDict [(''none_except'', Some [''2.mp3''])])]"
    by code_simp
  have i0: "all_tracks_by_path example_p2i (butlast [''.label.foo.yml'']) = Some {|0, 1, 2|}"
    by code_simp
  have i1: "all_tracks_by_path example_p2i (butlast [''a'', ''.label.two.yml'']) = Some {|0, 1|}"
    by code_simp
  have i2: "all_tracks_by_path example_p2i (joinpath (butlast [''a'', ''.label.two.yml'']) ''2.mp3'')
       = Some {|1|}"
    by code_simp
  from single_rule_file_resolution [where tree = example_tree and m = example_client
      and l = "''two''" and c = Map.empty and p2i = example_p2i
      and tag_file = "[''a'', ''.label.two.yml'']" and key = "''none_except''"
      and given = "Some [''2.mp3'']" and A = "{|0, 1|}" and x = "''2.mp3''" and B = "{|1|}"]
    t i1 i2
  have "fst (label_getitem example_tree example_p2i (Map.empty, example_client) ''two'')
       = Inr {|1|}"
    by blast
  with f t i0 i1 i2 show ?thesis by blast
qed

lemma remove_listed_Inl:
  "remove_listed idx d ps r = Inl e \<Longrightarrow>
   \<exists>p \<in> set ps. idx (joinpath d p) = None \<and> e = KeyError [Key (joinpath d p)]"
  by (induction ps arbitrary: r) (auto split: option.splits)

lemma add_listed_Inl:
  "add_listed idx d ps r = Inl e \<Longrightarrow>
   \<exists>p \<in> set ps. idx (joinpath d p) = None \<and> e = KeyError [Key (joinpath d p)]"
  by (induction ps arbitrary: r) (auto split: option.splits)

lemma remove_listed_missing:
  "\<exists>p \<in> set ps. idx (joinpath d p) = None \<Longrightarrow>
   \<exists>p \<in> set ps. idx (joinpath d p) = None
      \<and> remove_listed idx d ps r = Inl (KeyError [Key (joinpath d p)])"
proof (induction ps arbitrary: r)
  case Nil
  then show ?case by simp
next
  case (Cons a ps)
  show ?case
  proof (cases "idx (joinpath d a)")
    case None
    then show ?thesis by auto
  next
    case (Some s)
    with Cons.prems have "\<exists>p \<in> set ps. idx (joinpath d p) = None" by auto
    from Cons.IH [OF this, of "r |-| s"] Some show ?thesis by auto
  qed
qed

lemma add_listed_missing:
  "\<exists>p \<in> set ps. idx (joinpath d p) = None \<Longrightarrow>
   \<exists>p \<in> set ps. idx (joinpath d p) = None
      \<and> add_listed idx d ps r = Inl (KeyError [Key (joinpath d p)])"
proof (induction ps arbitrary: r)
  case Nil
  then show ?case by simp
next
  case (Cons a ps)
  show ?case
  proof (cases "idx (joinpath d a)")
    case None
    then show ?thesis by auto
  next
    case (Some s)
    with Cons.prems have "\<exists>p \<in> set ps. idx (joinpath d p) = None" by auto
    from Cons.IH [OF this, of "r |\<union>| s"] Some show ?thesis by auto
  qed
qed

lemma apply_single_key:
  "apply_tag_file idx r (tag_file, YamlDict [(key, given)])
     = (if key = ''all_except'' then
          (case idx (butlast tag_file) of
             None \<Rightarrow> Inl (KeyError [Key (butlast tag_file)])
           | Some s \<Rightarrow>
               (case given of
                  None \<Rightarrow> Inr (r |\<union>| s)
                | Some ps \<Rightarrow> remove_listed idx (butlast tag_file) ps (r |\<union>| s)))
        else if key = ''none_except'' then
          (case idx (butlast tag_file) of
             None \<Rightarrow> Inl (KeyError [Key (butlast tag_file)])
           | Some s \<Rightarrow>
               (case given of
                  None \<Rightarrow> Inr (r |-| s)
                | Some ps \<Rightarrow> add_listed idx (butlast tag_file) ps (r |-| s)))
        else Inr r)"
  by (simp add: apply_tag_file_def Let_def)

lemma referenced_single_key:
  "referenced_paths (tag_file, YamlDict [(key, given)])
     = (if key = ''all_except'' \<or> key = ''none_except''
        then butlast tag_file
               # map (joinpath (butlast tag_file)) (case given of None \<Rightarrow> [] | Some ps \<Rightarrow> ps)
        else [])"
  by (simp add: referenced_paths_def)

lemma apply_single_key_Inl:
  assumes "apply_tag_file idx r (tag_file, YamlDict [(key, given)]) = Inl e"
  shows "\<exists>k \<in> set (referenced_paths (tag_file, YamlDict [(key, given)])).
           idx k = None \<and> e = KeyError [Key k]"
proof -
  let ?D = "butlast tag_file"
  from assms have k: "key = ''all_except'' \<or> key = ''none_except''"
    by (auto simp: apply_single_key split: if_splits)
  show ?thesis
  proof (cases "idx ?D")
    case None
    with assms k have "e = KeyError [Key ?D]"
      by (auto simp: apply_single_key split: if_splits)
    with None k show ?thesis
      by (auto simp: referenced_single_key)
  next
    case (Some s)
    with assms k obtain ps where g: "given = Some ps"
      by (cases given) (auto simp: apply_single_key split: if_splits)
    from assms k Some g
    have "remove_listed idx ?D ps (r |\<union>| s) = Inl e \<or> add_listed idx ?D ps (r |-| s) = Inl e"
      by (auto simp: apply_single_key split: if_splits)
    then obtain p where "p \<in> set ps" "idx (joinpath ?D p) = None" "e = KeyError [Key (joinpath ?D p)]"
      using remove_listed_Inl add_listed_Inl by blast
    with k g show ?thesis
      by (auto simp: referenced_single_key)
  qed
qed

lemma apply_single_key_missing:
  assumes "\<exists>q \<in> set (referenced_paths (tag_file, YamlDict [(key, given)])). idx q = None"
  shows "\<exists>k \<in> set (referenced_paths (tag_file, YamlDict [(key, given)])).
           idx k = None
           \<and> apply_tag_file idx r (tag_file, YamlDict [(key, given)]) = Inl (KeyError [Key k])"
proof -
  let ?D = "butlast tag_file"
  from assms have k: "key = ''all_except'' \<or> key = ''none_except''"
    by (auto simp: referenced_single_key split: if_splits)
  show ?thesis
  proof (cases "idx ?D")
    case None
    with k show ?thesis
      by (auto simp: apply_single_key referenced_single_key)
  next
    case (Some s)
    with assms k obtain ps where g: "given = Some ps"
      and b: "\<exists>p \<in> set ps. idx (joinpath ?D p) = None"
      by (cases given) (auto simp: referenced_single_key)
    from remove_listed_missing [OF b, of "r |\<union>| s"] add_listed_missing [OF b, of "r |-| s"]
    obtain p p' where "p \<in> set ps" "idx (joinpath ?D p) = None"
      "remove_listed idx ?D ps (r |\<union>| s) = Inl (KeyError [Key (joinpath ?D p)])"
      "p' \<in> set ps" "idx (joinpath ?D p') = None"
      "add_listed idx ?D ps (r |-| s) = Inl (KeyError [Key (joinpath ?D p')])"
      by blast
    with k g Some show ?thesis
      by (auto simp: apply_single_key referenced_single_key)
  qed
qed

lemma apply_tag_file_Key:
  assumes "apply_tag_file idx r tf = Inl e" and "args e = [Key k]"
  shows "e = KeyError [Key k] \<and> k \<in> set (referenced_paths tf) \<and> idx k = None"
proof (cases tf)
  case (Pair tag_file content)
  show ?thesis
  proof (cases content)
    case YamlNone
    with Pair assms show ?thesis by (auto simp: apply_tag_file_def)
  next
    case (YamlDict items)
    show ?thesis
    proof (cases items)
      case Nil
      with Pair YamlDict assms show ?thesis by (auto simp: apply_tag_file_def)
    next
      case (Cons kv kvs)
      show ?thesis
      proof (cases kvs)
        case Nil
        obtain key given where "kv = (key, given)" by (cases kv)
        with Pair YamlDict Cons Nil assms apply_single_key_Inl [of idx r tag_file key given e]
        show ?thesis by auto
      next
        case (Cons kv' kvs')
        with Pair YamlDict \<open>items = kv # kvs\<close> assms show ?thesis
          by (auto simp: apply_tag_file_def split_beta)
      qed
    qed
  qed
qed

lemma apply_tag_files_Key:
  "apply_tag_files idx r found = Inl e \<Longrightarrow> args e = [Key k] \<Longrightarrow>
   e = KeyError [Key k] \<and> (\<exists>tf \<in> set found. k \<in> set (referenced_paths tf) \<and> idx k = None)"
proof (induction found arbitrary: r)
  case Nil
  then show ?case by simp
next
  case (Cons tf found)
  show ?case
  proof (cases "apply_tag_file idx r tf")
    case (Inl e')
    with Cons.prems have "apply_tag_file idx r tf = Inl e" by simp
    from apply_tag_file_Key [OF this Cons.prems(2)] show ?thesis by auto
  next
    case (Inr r')
    with Cons.prems have "apply_tag_files idx r' found = Inl e" by simp
    from Cons.IH [OF this Cons.prems(2)] show ?thesis by auto
  qed
qed

lemma apply_tag_files_missing:
  assumes "\<forall>tf \<in> set found. \<exists>tag_file key given. tf = (tag_file, YamlDict [(key, given)])"
    and "\<exists>tf \<in> set found. \<exists>q \<in> set (referenced_paths tf). idx q = None"
  shows "\<exists>k. idx k = None \<and> apply_tag_files idx r found = Inl (KeyError [Key k])"
  using assms
proof (induction found arbitrary: r)
  case Nil
  then show ?case by simp
next
  case (Cons tf found)
  from Cons.prems(1) obtain tag_file key given where tf: "tf = (tag_file, YamlDict [(key, given)])"
    by auto
  show ?case
  proof (cases "\<exists>q \<in> set (referenced_paths tf). idx q = None")
    case True
    from apply_single_key_missing [OF True [unfolded tf], of r]
    show ?thesis by (auto simp: tf)
  next
    case False
    with Cons.prems(2) have t: "\<exists>tf \<in> set found. \<exists>q \<in> set (referenced_paths tf). idx q = None"
      by auto
    show ?thesis
    proof (cases "apply_tag_file idx r tf")
      case (Inl e)
      from apply_single_key_Inl [OF Inl [unfolded tf]] False show ?thesis
        by (auto simp: tf)
    next
      case (Inr r')
      from Cons.prems(1) have "\<forall>tf \<in> set found. \<exists>tag_file key given. tf = (tag_file, YamlDict [(key, given)])"
        by simp
      from Cons.IH [OF this t, of r'] Inr show ?thesis by simp
    qed
  qed
qed

lemma label_lookup_result:
  "fst (label_lookup tree p2i m l)
     = (case apply_tag_files (all_tracks_by_path p2i) {||}
               (tree (Path (music_directory m)) (label_file_name l)) of
          Inl e \<Rightarrow> Inl e
        | Inr result \<Rightarrow>
            if tree (Path (music_directory m)) (label_file_name l) = []
            then Inl (LookupError [Msg (''No file found named '' @ label_file_name l)])
            else Inr result)"
  by (simp add: label_lookup_def config_def Let_def split: sum.splits)

lemma index_missing_iff:
  "all_tracks_by_path p2i q = None \<longleftrightarrow> tracks_under p2i q = {||}"
  by (simp add: all_tracks_by_path_eq)

lemma label_getitem_result:
  "fst (label_getitem tree p2i (c, m) l)
     = (case c l of
          Some v \<Rightarrow> Inr v
        | None \<Rightarrow>
            (case fst (label_lookup tree p2i m l) of
               Inl e \<Rightarrow> Inl (if is_LookupError e then IndexError (args e) else e)
             | Inr v \<Rightarrow> Inr v))"
proof (cases "label_lookup tree p2i m l")
  case (Pair r m')
  then show ?thesis
    by (cases r) (simp_all add: label_getitem_def db_getitem_def split: option.splits)
qed

text \<open>
  Claim C10. \<open>found\<close> is what the label search yields. First part: when every rule
  file found has exactly one key and some path subscripted for one of them (the rule
  file's directory or a listed subpath under it) has no track at or under it, the
  lookup raises \<^verbatim>\<open>KeyError\<close> for such a path, a \<^verbatim>\<open>LookupError\<close> that \<^verbatim>\<open>__getitem__\<close>
  passes on as \<^verbatim>\<open>IndexError\<close>; the empty subtree is not taken as the empty set.
  Second part: when every subscripted path has a track at or under it, the lookup
  never raises that error.
\<close>

theorem ancestor_index_access_unguarded:
  "((\<forall>tf \<in> set (tree (Path (music_directory m)) (label_file_name l)).
        \<exists>tag_file key given. tf = (tag_file, YamlDict [(key, given)]))
     \<and> (\<exists>tf \<in> set (tree (Path (music_directory m)) (label_file_name l)).
          \<exists>q \<in> set (referenced_paths tf). tracks_under p2i q = {||})
    \<longrightarrow> (\<exists>k. tracks_under p2i k = {||}
          \<and> fst (label_lookup tree p2i m l) = Inl (KeyError [Key k])
          \<and> (c l = None \<longrightarrow> fst (label_getitem tree p2i (c, m) l) = Inl (IndexError [Key k]))))
   \<and> ((\<forall>tf \<in> set (tree (Path (music_directory m)) (label_file_name l)).
         \<forall>q \<in> set (referenced_paths tf). tracks_under p2i q \<noteq> {||})
    \<longrightarrow> (\<forall>k. fst (label_lookup tree p2i m l) \<noteq> Inl (KeyError [Key k])
            \<and> fst (label_getitem tree p2i (c, m) l) \<noteq> Inl (IndexError [Key k])))"
proof (intro conjI impI)
  let ?found = "tree (Path (music_directory m)) (label_file_name l)"
  let ?idx = "all_tracks_by_path p2i"
  assume a: "(\<forall>tf \<in> set ?found. \<exists>tag_file key given. tf = (tag_file, YamlDict [(key, given)]))
     \<and> (\<exists>tf \<in> set ?found. \<exists>q \<in> set (referenced_paths tf). tracks_under p2i q = {||})"
  then have wf: "\<forall>tf \<in> set ?found. \<exists>tag_file key given. tf = (tag_file, YamlDict [(key, given)])"
    and miss: "\<exists>tf \<in> set ?found. \<exists>q \<in> set (referenced_paths tf). ?idx q = None"
    by (simp_all add: index_missing_iff)
  from apply_tag_files_missing [OF wf miss, of "{||}"]
  obtain k where k: "?idx k = None" "apply_tag_files ?idx {||} ?found = Inl (KeyError [Key k])"
    by blast
  from k(2) have r: "fst (label_lookup tree p2i m l) = Inl (KeyError [Key k])"
    by (simp add: label_lookup_result)
  then have "c l = None \<longrightarrow> fst (label_getitem tree p2i (c, m) l) = Inl (IndexError [Key k])"
    by (simp add: label_getitem_result)
  with k(1) r show "\<exists>k. tracks_under p2i k = {||}
          \<and> fst (label_lookup tree p2i m l) = Inl (KeyError [Key k])
          \<and> (c l = None \<longrightarrow> fst (label_getitem tree p2i (c, m) l) = Inl (IndexError [Key k]))"
    by (auto simp: index_missing_iff)
next
  let ?found = "tree (Path (music_directory m)) (label_file_name l)"
  let ?idx = "all_tracks_by_path p2i"
  assume ok: "\<forall>tf \<in> set ?found. \<forall>q \<in> set (referenced_paths tf). tracks_under p2i q \<noteq> {||}"
  have no: "\<And>e k. fst (label_lookup tree p2i m l) = Inl e \<Longrightarrow> args e \<noteq> [Key k]"
  proof
    fix e k
    assume l: "fst (label_lookup tree p2i m l) = Inl e" and ar: "args e = [Key k]"
    from l ar have "apply_tag_files ?idx {||} ?found = Inl e"
      by (auto simp: label_lookup_result split: sum.splits if_splits)
    from apply_tag_files_Key [OF this ar]
    obtain tf where "tf \<in> set ?found" "k \<in> set (referenced_paths tf)" "?idx k = None"
      by blast
    with ok show False
      by (auto simp: index_missing_iff)
  qed
  show "\<forall>k. fst (label_lookup tree p2i m l) \<noteq> Inl (KeyError [Key k])
            \<and> fst (label_getitem tree p2i (c, m) l) \<noteq> Inl (IndexError [Key k])"
  proof (intro allI conjI)
    fix k
    show "fst (label_lookup tree p2i m l) \<noteq> Inl (KeyError [Key k])"
      using no [of "KeyError [Key k]" k] by auto
    show "fst (label_getitem tree p2i (c, m) l) \<noteq> Inl (IndexError [Key k])"
    proof
      assume g: "fst (label_getitem tree p2i (c, m) l) = Inl (IndexError [Key k])"
      then obtain e where e: "fst (label_lookup tree p2i m l) = Inl e"
        and "(if is_LookupError e then IndexError (args e) else e) = IndexError [Key k]"
        by (auto simp: label_getitem_result split: option.splits sum.splits)
      then have "args e = [Key k]"
        by (cases e) (auto split: if_splits)
      with no [OF e, of k] show False by simp
    qed
  qed
qed

theorem ancestor_index_access_unguarded_witness:
  "example_tree (Path (music_directory example_client)) (label_file_name ''gone'')
     = [([''.label.gone.yml''], YamlDict [(''all_except'', Some [''c''])])]
   \<and> tracks_under example_p2i [''c''] = {||}
   \<and> (\<exists>k. tracks_under example_p2i k = {||}
        \<and> fst (label_lookup example_tree example_p2i example_client ''gone'')
            = Inl (KeyError [Key k]))
   \<and> example_tree (Path (music_directory example_client)) (label_file_name ''foo'')
     = [([''.label.foo.yml''], YamlDict [(''all_except'', Some [''a''])])]
   \<and> tracks_under example_p2i [] \<noteq> {||}
   \<and> tracks_under example_p2i [''a''] \<noteq> {||}
   \<and> fst (label_lookup example_tree example_p2i example_client ''foo'')
       \<noteq> Inl (KeyError [Key [''a'']])"
proof -
  have g: "example_tree (Path (music_directory example_client)) (label_file_name ''gone'')
     = [([''.label.gone.yml''], YamlDict [(''all_except'', Some [''c''])])]"
    by code_simp
  have f: "example_tree (Path (music_directory example_client)) (label_file_name ''foo'')
     = [([''.label.foo.yml''], YamlDict [(''all_except'', Some [''a''])])]"
    by code_simp
  have c: "tracks_under example_p2i [''c''] = {||}"
    by code_simp
  have r: "tracks_under example_p2i [] \<noteq> {||}"
    by code_simp
  have a: "tracks_under example_p2i [''a''] \<noteq> {||}"
    by code_simp
  have jc: "joinpath [] ''c'' = [''c'']" and ja: "joinpath [] ''a'' = [''a'']"
    by code_simp+
  have h1: "(\<forall>tf \<in> set (example_tree (Path (music_directory example_client)) (label_file_name ''gone'')).
        \<exists>tag_file key given. tf = (tag_file, YamlDict [(key, given)]))
     \<and> (\<exists>tf \<in> set (example_tree (Path (music_directory example_client)) (label_file_name ''gone'')).
          \<exists>q \<in> set (referenced_paths tf). tracks_under example_p2i q = {||})"
    using c by (simp add: g referenced_single_key jc)
  have h2: "\<forall>tf \<in> set (example_tree (Path (music_directory example_client)) (label_file_name ''foo'')).
         \<forall>q \<in> set (referenced_paths tf). tracks_under example_p2i q \<noteq> {||}"
    using r a by (simp add: f referenced_single_key ja)
  from ancestor_index_access_unguarded [where tree = example_tree and m = example_client
      and l = "''gone''" and p2i = example_p2i and c = Map.empty] h1
  have w1: "\<exists>k. tracks_under example_p2i k = {||}
        \<and> fst (label_lookup example_tree example_p2i example_client ''gone'')
            = Inl (KeyError [Key k])"
    by blast
  from ancestor_index_access_unguarded [where tree = example_tree and m = example_client
      and l = "''foo''" and p2i = example_p2i and c = Map.empty] h2
  have w2: "fst (label_lookup example_tree example_p2i example_client ''foo'')
       \<noteq> Inl (KeyError [Key [''a'']])"
    by blast
  from g f c r a w1 w2 show ?thesis by blast
qed

subsection \<open>The Sync Engine: properties\<close>

lemma add_each_calls: "calls (add_each m name xs) = calls m @ map (PlaylistAdd name) xs"
  by (induction xs arbitrary: m) (simp_all add: playlistadd_def)

lemma add_each_stored:
  "stored_playlists (add_each m name xs)
     = (if xs = [] then stored_playlists m
        else (stored_playlists m)
          (name \<mapsto> (case stored_playlists m name of None \<Rightarrow> [] | Some ys \<Rightarrow> ys) @ xs))"
proof (induction xs arbitrary: m)
  case Nil
  show ?case by simp
next
  case (Cons x xs)
  show ?case
    by (auto simp: Cons.IH playlistadd_def fun_eq_iff)
qed

lemma send_playlist_stored:
  assumes "already_exists \<longleftrightarrow> stored_playlists m name \<noteq> None"
    and "old_track_names = (case stored_playlists m name of None \<Rightarrow> [] | Some ys \<Rightarrow> ys)"
  shows "stored_playlists (send_playlist m name track_names old_track_names already_exists)
     = (stored_playlists m)(name \<mapsto> track_names)"
proof (cases "stored_playlists m name")
  case None
  with assms show ?thesis
    by (auto simp: send_playlist_def add_each_stored command_list_end_def
        command_list_ok_begin_def playlistclear_def save_def)
next
  case (Some ys)
  with assms show ?thesis
    by (auto simp: send_playlist_def add_each_stored command_list_end_def
        command_list_ok_begin_def playlistclear_def save_def)
qed

lemma send_playlist_calls:
  "calls (send_playlist m name track_names old_track_names already_exists)
     = calls m @
        (if \<not> already_exists \<and> track_names = []
         then [CommandListOkBegin, Save name, PlaylistClear name, CommandListEnd]
         else if track_names \<noteq> old_track_names
         then [CommandListOkBegin] @ (if already_exists then [PlaylistClear name] else [])
                @ map (PlaylistAdd name) track_names @ [CommandListEnd]
         else [])"
  by (simp add: send_playlist_def add_each_calls command_list_end_def
      command_list_ok_begin_def playlistclear_def save_def)

lemma listplaylist_eq:
  "listplaylist m name
     = ((case stored_playlists m name of None \<Rightarrow> Inl CommandError | Some xs \<Rightarrow> Inr xs),
        m\<lparr>calls := calls m @ [ListPlaylist name]\<rparr>)"
  by (simp add: listplaylist_def)

lemma sync_playlist_eq:
  assumes "track_names_of paths (ordered_idxs v) = Inr names"
  shows "sync_playlist paths m (name, v)
     = (Inr (),
        send_playlist (m\<lparr>calls := calls m @ [ListPlaylist name]\<rparr>) name names
          (case stored_playlists m name of None \<Rightarrow> [] | Some ys \<Rightarrow> ys)
          (stored_playlists m name \<noteq> None))"
  using assms
  by (cases "stored_playlists m name") (simp_all add: sync_playlist_def listplaylist_eq)

lemma sync_playlist_Inl:
  assumes "track_names_of paths (ordered_idxs v) = Inl e"
  shows "sync_playlist paths m (name, v) = (Inl e, m)"
  using assms by (simp add: sync_playlist_def)

lemma sync_playlist_stored:
  assumes "track_names_of paths (ordered_idxs v) = Inr names"
  shows "stored_playlists (snd (sync_playlist paths m (name, v)))
     = (stored_playlists m)(name \<mapsto> names)"
proof -
  let ?m = "m\<lparr>calls := calls m @ [ListPlaylist name]\<rparr>"
  have "stored_playlists (send_playlist ?m name names
          (case stored_playlists m name of None \<Rightarrow> [] | Some ys \<Rightarrow> ys)
          (stored_playlists m name \<noteq> None))
      = (stored_playlists ?m)(name \<mapsto> names)"
    by (rule send_playlist_stored) simp_all
  then show ?thesis
    by (simp add: sync_playlist_eq [OF assms])
qed

lemma sync_playlist_calls:
  assumes "track_names_of paths (ordered_idxs v) = Inr names"
  shows "calls (snd (sync_playlist paths m (name, v)))
     = calls m @ [ListPlaylist name] @
        (if stored_playlists m name = None \<and> names = []
         then [CommandListOkBegin, Save name, PlaylistClear name, CommandListEnd]
         else if names \<noteq> (case stored_playlists m name of None \<Rightarrow> [] | Some ys \<Rightarrow> ys)
         then [CommandListOkBegin]
                @ (if stored_playlists m name \<noteq> None then [PlaylistClear name] else [])
                @ map (PlaylistAdd name) names @ [CommandListEnd]
         else [])"
  by (simp add: sync_playlist_eq [OF assms] send_playlist_calls)

lemma sync_playlist_other:
  "n \<noteq> name \<Longrightarrow>
   stored_playlists (snd (sync_playlist paths m (name, v))) n = stored_playlists m n"
proof (cases "track_names_of paths (ordered_idxs v)")
  case (Inl e)
  then show ?thesis by (simp add: sync_playlist_Inl)
next
  case (Inr names)
  assume "n \<noteq> name"
  then show ?thesis by (simp add: sync_playlist_stored [OF Inr])
qed

lemma track_names_of_in_range:
  "\<forall>i \<in> set idxs. 0 \<le> i \<and> i < int (length paths) \<Longrightarrow>
   track_names_of paths idxs = Inr (map (\<lambda>i. str_path (paths ! nat i)) idxs)"
  by (induction idxs) (simp_all add: list_getitem_def)

text \<open>
  Claim C3. \<open>names\<close> is the normalised value of the generated playlist \<open>(name, v)\<close>:
  a set is put in increasing order of Track Index, a sequence is kept in its order, and
  then each index is translated to the string of its path (for indices within the
  catalog, position by position). With it the loop body raises nothing and
  \<^item> when the playlist is not stored and \<open>names\<close> is empty, issues the batch
    begin, \<^verbatim>\<open>save\<close>, \<^verbatim>\<open>playlistclear\<close>, end;
  \<^item> when \<open>names\<close> differs from the stored contents (taken as empty for a playlist that
    is not stored), issues one batch: begin, \<^verbatim>\<open>playlistclear\<close> if the playlist is
    stored, one \<^verbatim>\<open>playlistadd\<close> per name in order, end;
  \<^item> when \<open>names\<close> equals the stored contents, issues nothing after the
    \<^verbatim>\<open>listplaylist\<close> query and leaves the stored playlists as they are.
\<close>

theorem sync_playlist_decision:
  assumes "track_names_of paths (ordered_idxs v) = Inr names"
  shows "sorted (ordered_idxs (TrackSet s)) \<and> distinct (ordered_idxs (TrackSet s))
    \<and> set (ordered_idxs (TrackSet s)) = fset s
    \<and> ordered_idxs (TrackSeq xs) = xs
    \<and> ((\<forall>i \<in> set (ordered_idxs v). 0 \<le> i \<and> i < int (length paths))
        \<longrightarrow> names = map (\<lambda>i. str_path (paths ! nat i)) (ordered_idxs v))
    \<and> fst (sync_playlist paths m (name, v)) = Inr ()
    \<and> (stored_playlists m name = None \<and> names = []
        \<longrightarrow> calls (snd (sync_playlist paths m (name, v)))
              = calls m @ [ListPlaylist name, CommandListOkBegin, Save name,
                           PlaylistClear name, CommandListEnd]
          \<and> stored_playlists (snd (sync_playlist paths m (name, v)))
              = (stored_playlists m)(name \<mapsto> []))
    \<and> (stored_playlists m name = None \<and> names \<noteq> []
        \<longrightarrow> calls (snd (sync_playlist paths m (name, v)))
              = calls m @ [ListPlaylist name, CommandListOkBegin]
                  @ map (PlaylistAdd name) names @ [CommandListEnd]
          \<and> stored_playlists (snd (sync_playlist paths m (name, v)))
              = (stored_playlists m)(name \<mapsto> names))
    \<and> (stored_playlists m name = Some old \<and> names \<noteq> old
        \<longrightarrow> calls (snd (sync_playlist paths m (name, v)))
              = calls m @ [ListPlaylist name, CommandListOkBegin, PlaylistClear name]
                  @ map (PlaylistAdd name) names @ [CommandListEnd]
          \<and> stored_playlists (snd (sync_playlist paths m (name, v)))
              = (stored_playlists m)(name \<mapsto> names))
    \<and> (stored_playlists m name = Some names
        \<longrightarrow> calls (snd (sync_playlist paths m (name, v))) = calls m @ [ListPlaylist name]
          \<and> stored_playlists (snd (sync_playlist paths m (name, v))) = stored_playlists m)"
proof -
  have n1: "sorted (ordered_idxs (TrackSet s)) \<and> distinct (ordered_idxs (TrackSet s))
    \<and> set (ordered_idxs (TrackSet s)) = fset s"
    by (simp add: ordered_idxs_def sorted_list_of_fset.rep_eq)
  have n2: "ordered_idxs (TrackSeq xs) = xs"
    by (simp add: ordered_idxs_def)
  have n3: "(\<forall>i \<in> set (ordered_idxs v). 0 \<le> i \<and> i < int (length paths))
        \<longrightarrow> names = map (\<lambda>i. str_path (paths ! nat i)) (ordered_idxs v)"
    using assms track_names_of_in_range [of "ordered_idxs v" paths] by auto
  have r: "fst (sync_playlist paths m (name, v)) = Inr ()"
    by (simp add: sync_playlist_eq [OF assms])
  note c = sync_playlist_calls [OF assms, of m name]
  note st = sync_playlist_stored [OF assms, of m name]
  have c1: "stored_playlists m name = None \<and> names = []
        \<longrightarrow> calls (snd (sync_playlist paths m (name, v)))
              = calls m @ [ListPlaylist name, CommandListOkBegin, Save name,
                           PlaylistClear name, CommandListEnd]
          \<and> stored_playlists (snd (sync_playlist paths m (name, v)))
              = (stored_playlists m)(name \<mapsto> [])"
    by (simp add: c st)
  have c2: "stored_playlists m name = None \<and> names \<noteq> []
        \<longrightarrow> calls (snd (sync_playlist paths m (name, v)))
              = calls m @ [ListPlaylist name, CommandListOkBegin]
                  @ map (PlaylistAdd name) names @ [CommandListEnd]
          \<and> stored_playlists (snd (sync_playlist paths m (name, v)))
              = (stored_playlists m)(name \<mapsto> names)"
    by (simp add: c st)
  have c3: "stored_playlists m name = Some old \<and> names \<noteq> old
        \<longrightarrow> calls (snd (sync_playlist paths m (name, v)))
              = calls m @ [ListPlaylist name, CommandListOkBegin, PlaylistClear name]
                  @ map (PlaylistAdd name) names @ [CommandListEnd]
          \<and> stored_playlists (snd (sync_playlist paths m (name, v)))
              = (stored_playlists m)(name \<mapsto> names)"
    by (simp add: c st)
  have c4: "stored_playlists m name = Some names
        \<longrightarrow> calls (snd (sync_playlist paths m (name, v))) = calls m @ [ListPlaylist name]
          \<and> stored_playlists (snd (sync_playlist paths m (name, v))) = stored_playlists m"
    by (auto simp: c st fun_eq_iff)
  from n1 have s1: "sorted (ordered_idxs (TrackSet s))"
    and s2: "distinct (ordered_idxs (TrackSet s))"
    and s3: "set (ordered_idxs (TrackSet s)) = fset s"
    by blast+
  show ?thesis
    by (intro conjI s1 s2 s3 n2 n3 r c1 c2 c3 c4)
qed

theorem sync_playlist_decision_witness:
  "track_names_of (all_track_paths (library example_client)) (ordered_idxs (TrackSet {|2, 0|}))
     = Inr [''a/1.mp3'', ''b/3.mp3'']
   \<and> stored_playlists example_client ''mix'' = None
   \<and> calls (snd (sync_playlist (all_track_paths (library example_client)) example_client
        (''mix'', TrackSet {|2, 0|})))
       = calls example_client @ [ListPlaylist ''mix'', CommandListOkBegin]
           @ map (PlaylistAdd ''mix'') [''a/1.mp3'', ''b/3.mp3''] @ [CommandListEnd]
   \<and> stored_playlists example_client ''foo'' = Some [''b/3.mp3'']
   \<and> track_names_of (all_track_paths (library example_client)) (ordered_idxs (TrackSeq [2]))
     = Inr [''b/3.mp3'']
   \<and> calls (snd (sync_playlist (all_track_paths (library example_client)) example_client
        (''foo'', TrackSeq [2])))
       = calls example_client @ [ListPlaylist ''foo'']"
proof -
  have h1: "track_names_of (all_track_paths (library example_client))
      (ordered_idxs (TrackSet {|2, 0|})) = Inr [''a/1.mp3'', ''b/3.mp3'']"
    by code_simp
  have h2: "stored_playlists example_client ''mix'' = None"
    by (simp add: example_client_def)
  have h3: "track_names_of (all_track_paths (library example_client))
      (ordered_idxs (TrackSeq [2])) = Inr [''b/3.mp3'']"
    by code_simp
  have h4: "stored_playlists example_client ''foo'' = Some [''b/3.mp3'']"
    by (simp add: example_client_def)
  from sync_playlist_decision [OF h1, where m = example_client and name = "''mix''"] h2
  have a: "calls (snd (sync_playlist (all_track_paths (library example_client)) example_client
        (''mix'', TrackSet {|2, 0|})))
       = calls example_client @ [ListPlaylist ''mix'', CommandListOkBegin]
           @ map (PlaylistAdd ''mix'') [''a/1.mp3'', ''b/3.mp3''] @ [CommandListEnd]"
    by simp
  from sync_playlist_decision [OF h3, where m = example_client and name = "''foo''"] h4
  have b: "calls (snd (sync_playlist (all_track_paths (library example_client)) example_client
        (''foo'', TrackSeq [2])))
       = calls example_client @ [ListPlaylist ''foo'']"
    by simp
  from h1 h2 h3 h4 a b show ?thesis by blast
qed

lemma sync_all_other:
  "n \<notin> fst ` set gen \<Longrightarrow>
   stored_playlists (snd (sync_all paths m gen)) n = stored_playlists m n"
proof (induction gen arbitrary: m)
  case Nil
  show ?case by simp
next
  case (Cons g gen)
  obtain name v where g: "g = (name, v)" by (cases g)
  obtain r m' where s: "sync_playlist paths m (name, v) = (r, m')"
    by (cases "sync_playlist paths m (name, v)")
  from Cons.prems g have ne: "n \<noteq> name" and nin: "n \<notin> fst ` set gen" by auto
  from sync_playlist_other [OF ne, of paths m v] s
  have o: "stored_playlists m' n = stored_playlists m n" by simp
  show ?case
  proof (cases r)
    case (Inl e)
    with s o g show ?thesis by simp
  next
    case (Inr u)
    with s o g Cons.IH [OF nin, of m'] show ?thesis by simp
  qed
qed

lemma sync_all_first:
  assumes "distinct (map fst gen)" and "fst (sync_all paths m gen) = Inr ()"
    and "(n, v) \<in> set gen"
  shows "\<exists>names. track_names_of paths (ordered_idxs v) = Inr names
           \<and> stored_playlists (snd (sync_all paths m gen)) n = Some names"
  using assms
proof (induction gen arbitrary: m)
  case Nil
  then show ?case by simp
next
  case (Cons g gen)
  obtain n0 v0 where g: "g = (n0, v0)" by (cases g)
  obtain names0 where t: "track_names_of paths (ordered_idxs v0) = Inr names0"
  proof (cases "track_names_of paths (ordered_idxs v0)")
    case (Inl e)
    with Cons.prems(2) g show ?thesis by (simp add: sync_playlist_Inl)
  next
    case (Inr names)
    then show ?thesis by (rule that)
  qed
  let ?m' = "snd (sync_playlist paths m (n0, v0))"
  have step: "sync_all paths m (g # gen) = sync_all paths ?m' gen"
    by (simp add: g sync_playlist_eq [OF t])
  from Cons.prems(1) g have d: "distinct (map fst gen)" and nin: "n0 \<notin> fst ` set gen"
    by auto
  from Cons.prems(2) have ok: "fst (sync_all paths ?m' gen) = Inr ()"
    by (simp only: step)
  show ?case
  proof (cases "(n, v) \<in> set gen")
    case True
    from Cons.IH [OF d ok True] show ?thesis by (simp only: step)
  next
    case False
    with Cons.prems(3) g have e: "n = n0" "v = v0" by auto
    have "stored_playlists (snd (sync_all paths ?m' gen)) n0 = stored_playlists ?m' n0"
      by (rule sync_all_other [OF nin])
    also have "\<dots> = Some names0"
      by (simp add: sync_playlist_stored [OF t])
    finally show ?thesis
      using t e by (simp only: step) simp
  qed
qed

lemma sync_all_second:
  assumes "\<forall>g \<in> set gen. \<exists>names. track_names_of paths (ordered_idxs (snd g)) = Inr names
             \<and> stored_playlists m (fst g) = Some names"
  shows "sync_all paths m gen
     = (Inr (), m\<lparr>calls := calls m @ map ListPlaylist (map fst gen)\<rparr>)"
  using assms
proof (induction gen arbitrary: m)
  case Nil
  show ?case by simp
next
  case (Cons g gen)
  obtain n v where g: "g = (n, v)" by (cases g)
  from Cons.prems g obtain names where t: "track_names_of paths (ordered_idxs v) = Inr names"
    and st: "stored_playlists m n = Some names"
    by auto
  let ?m' = "m\<lparr>calls := calls m @ [ListPlaylist n]\<rparr>"
  have one: "sync_playlist paths m (n, v) = (Inr (), ?m')"
    by (simp add: sync_playlist_eq [OF t] st send_playlist_def)
  have "\<forall>g \<in> set gen. \<exists>names. track_names_of paths (ordered_idxs (snd g)) = Inr names
             \<and> stored_playlists ?m' (fst g) = Some names"
    using Cons.prems by simp
  from Cons.IH [OF this] one show ?case
    by (simp add: g)
qed

text \<open>
  The generated-playlists mapping is a \<^verbatim>\<open>dict\<close>: whatever the rule script does, its
  names are pairwise different.
\<close>

lemma generated_playlists_distinct:
  "distinct (map fst (generated_playlists st)) \<Longrightarrow>
   distinct (map fst (generated_playlists (pl_exec p2i st ops)))"
proof (induction ops arbitrary: st)
  case Nil
  then show ?case by (simp add: pl_exec_def)
next
  case (Cons op ops)
  have e: "pl_exec p2i st (op # ops) = pl_exec p2i (snd (pl_step p2i st op)) ops"
    by (simp add: pl_exec_def)
  have "distinct (map fst (generated_playlists (snd (pl_step p2i st op))))"
  proof (cases op)
    case (Getitem n)
    with Cons.prems show ?thesis
      by (simp add: playlist_getitem_def split_beta)
  next
    case (Getattr n)
    obtain r s where g: "playlist_getitem p2i st n = (r, s)"
      by (cases "playlist_getitem p2i st n")
    then have "generated_playlists s = generated_playlists st"
      by (auto simp: playlist_getitem_def split_beta)
    with Cons.prems Getattr g show ?thesis
      by (cases r) (simp_all add: playlist_getattr_def db_getattr_def)
  next
    case (Setitem n v)
    with Cons.prems show ?thesis
      by (simp add: playlist_setitem_def distinct_update)
  qed
  from Cons.IH [OF this] show ?case
    by (simp only: e)
qed

text \<open>
  Claim C7. The generated playlists have pairwise different names and the first run of
  the loop completes, leaving the client in state \<open>m1\<close> with its mutations applied. A
  second run over the same generated playlists from \<open>m1\<close> completes too, issues one
  \<^verbatim>\<open>listplaylist\<close> query per playlist and nothing else, so no mutating call, and
  leaves the stored playlists as they are. The playlist created empty by the first run
  is stored and equal in the second.
\<close>

theorem second_sync_issues_no_mutation:
  assumes "distinct (map fst gen)" and "fst (sync_all paths m gen) = Inr ()"
  shows "fst (sync_all paths (snd (sync_all paths m gen)) gen) = Inr ()
    \<and> calls (snd (sync_all paths (snd (sync_all paths m gen)) gen))
        = calls (snd (sync_all paths m gen)) @ map ListPlaylist (map fst gen)
    \<and> filter is_mutation
         (drop (length (calls (snd (sync_all paths m gen))))
            (calls (snd (sync_all paths (snd (sync_all paths m gen)) gen)))) = []
    \<and> stored_playlists (snd (sync_all paths (snd (sync_all paths m gen)) gen))
        = stored_playlists (snd (sync_all paths m gen))"
proof -
  let ?m1 = "snd (sync_all paths m gen)"
  have "\<forall>g \<in> set gen. \<exists>names. track_names_of paths (ordered_idxs (snd g)) = Inr names
             \<and> stored_playlists ?m1 (fst g) = Some names"
  proof
    fix g assume "g \<in> set gen"
    then have "(fst g, snd g) \<in> set gen" by simp
    from sync_all_first [OF assms this]
    show "\<exists>names. track_names_of paths (ordered_idxs (snd g)) = Inr names
             \<and> stored_playlists ?m1 (fst g) = Some names" .
  qed
  then have s: "sync_all paths ?m1 gen
      = (Inr (), ?m1\<lparr>calls := calls ?m1 @ map ListPlaylist (map fst gen)\<rparr>)"
    by (rule sync_all_second)
  have "filter is_mutation (map ListPlaylist (map fst gen)) = []"
    by (induction gen) simp_all
  then show ?thesis
    by (simp add: s)
qed

theorem second_sync_issues_no_mutation_witness:
  "distinct (map fst [(''foo'', TrackSet {|2|}), (''new'', TrackSeq []), (''mix'', TrackSeq [2, 0])])
   \<and> fst (sync_all (all_track_paths (library example_client)) example_client
        [(''foo'', TrackSet {|2|}), (''new'', TrackSeq []), (''mix'', TrackSeq [2, 0])]) = Inr ()
   \<and> filter is_mutation
        (calls (snd (sync_all (all_track_paths (library example_client)) example_client
           [(''foo'', TrackSet {|2|}), (''new'', TrackSeq []), (''mix'', TrackSeq [2, 0])])))
       = [Save ''new'', PlaylistClear ''new'',
          PlaylistAdd ''mix'' ''b/3.mp3'', PlaylistAdd ''mix'' ''a/1.mp3'']
   \<and> filter is_mutation
        (drop (length (calls (snd (sync_all (all_track_paths (library example_client))
             example_client
             [(''foo'', TrackSet {|2|}), (''new'', TrackSeq []), (''mix'', TrackSeq [2, 0])]))))
          (calls (snd (sync_all (all_track_paths (library example_client))
             (snd (sync_all (all_track_paths (library example_client)) example_client
               [(''foo'', TrackSet {|2|}), (''new'', TrackSeq []), (''mix'', TrackSeq [2, 0])]))
             [(''foo'', TrackSet {|2|}), (''new'', TrackSeq []), (''mix'', TrackSeq [2, 0])]))))
       = []"
proof -
  let ?gen = "[(''foo'', TrackSet {|2|}), (''new'', TrackSeq []), (''mix'', TrackSeq [2, 0])]"
  have d: "distinct (map fst ?gen)"
    by simp
  have ok: "fst (sync_all (all_track_paths (library example_client)) example_client ?gen) = Inr ()"
    by code_simp
  have first: "filter is_mutation
        (calls (snd (sync_all (all_track_paths (library example_client)) example_client ?gen)))
       = [Save ''new'', PlaylistClear ''new'',
          PlaylistAdd ''mix'' ''b/3.mp3'', PlaylistAdd ''mix'' ''a/1.mp3'']"
    by code_simp
  from second_sync_issues_no_mutation [OF d ok] d ok first
  show ?thesis by blast
qed

end
